theory Spec2Isabelle
  imports Main "HOL-Library.Word" "HOL-Library.Log_Nat"
begin

unbundle bit_operations_syntax

section \<open>Single-precision values\<close>

text \<open>
  The table of a 1D LUT holds C++ \<^verbatim>\<open>float\<close> values.  A value is modelled by its IEEE 754
  binary32 bit pattern, so that signed zeros, infinities and NaNs are the ones the program
  sees, and so that "the raw bytes of the array" are determined by the model.  Bit 31 is
  the sign; the low 31 bits (exponent and fraction) are the magnitude.
\<close>

type_synonym float = "32 word"

definition f_sign :: "float \<Rightarrow> bool" where
  "f_sign w = bit w 31"

definition f_mag :: "float \<Rightarrow> int" where
  "f_mag w = uint w mod 2 ^ 31"

text \<open>\<^verbatim>\<open>IsNan\<close>: exponent all ones and a non-zero fraction (magnitude above \<^verbatim>\<open>0x7F800000\<close>).\<close>

definition IsNan :: "float \<Rightarrow> bool" where
  "IsNan w = (2139095040 < f_mag w)"

definition f_isinf :: "float \<Rightarrow> bool" where
  "f_isinf w = (f_mag w = 2139095040)"

text \<open>
  The order of two non-NaN values is the order of their sign-magnitude patterns; the two
  zeros have the same key.  Every comparison with a NaN is false, as in C++.
\<close>

definition f_key :: "float \<Rightarrow> int" where
  "f_key w = (if f_sign w then - f_mag w else f_mag w)"

definition flt_lt :: "float \<Rightarrow> float \<Rightarrow> bool" where
  "flt_lt a b = (\<not> IsNan a \<and> \<not> IsNan b \<and> f_key a < f_key b)"

definition flt_gt :: "float \<Rightarrow> float \<Rightarrow> bool" where
  "flt_gt a b = flt_lt b a"

definition flt_eq :: "float \<Rightarrow> float \<Rightarrow> bool" where
  "flt_eq a b = (\<not> IsNan a \<and> \<not> IsNan b \<and> f_key a = f_key b)"

definition flt_le :: "float \<Rightarrow> float \<Rightarrow> bool" where
  "flt_le a b = (\<not> IsNan a \<and> \<not> IsNan b \<and> f_key a \<le> f_key b)"

subsection \<open>Arithmetic: round to nearest, ties to even\<close>

text \<open>The absolute value denoted by a finite pattern (subnormal when the exponent is 0).\<close>

definition f_absval :: "float \<Rightarrow> rat" where
  "f_absval w = (let e = f_mag w div 2 ^ 23; m = f_mag w mod 2 ^ 23 in
     if e = 0 then of_int m * 2 powi (- 149)
     else of_int (2 ^ 23 + m) * 2 powi (e - 150))"

definition f_val :: "float \<Rightarrow> rat" where
  "f_val w = (if f_sign w then - f_absval w else f_absval w)"

definition rne :: "rat \<Rightarrow> int" where
  "rne x = (let f = \<lfloor>x\<rfloor>; d = x - of_int f in
     if d < 1 / 2 then f else if 1 / 2 < d then f + 1 else if even f then f else f + 1)"

text \<open>\<open>flog2 x\<close> is \<open>\<lfloor>log\<^sub>2 x\<rfloor>\<close> for a positive rational, computed from the bit lengths.\<close>

definition flog2 :: "rat \<Rightarrow> int" where
  "flog2 x = (case quotient_of x of (p, q) \<Rightarrow>
     (let e = bitlen p - bitlen q in if 2 powi e \<le> x then e else e - 1))"

text \<open>
  The magnitude pattern of the binary32 value nearest to a non-negative rational: with
  \<open>e\<close> the exponent (at least \<open>-126\<close>, the subnormal range) the significand is rounded to
  an integer multiple of \<open>2\<^sup>e\<^sup>-\<^sup>2\<^sup>3\<close>; a carry out of the significand moves to the next
  exponent by itself, and a result at or beyond \<open>2\<^sup>1\<^sup>2\<^sup>8\<close> is infinity.
\<close>

definition round_mag :: "rat \<Rightarrow> int" where
  "round_mag x = (if x = 0 then 0 else
     (let e = max (flog2 x) (- 126);
          p = (e + 126) * 2 ^ 23 + rne (x * 2 powi (23 - e))
      in if 2139095040 \<le> p then 2139095040 else p))"

definition mk_float :: "bool \<Rightarrow> int \<Rightarrow> float" where
  "mk_float s m = word_of_int (if s then 2 ^ 31 + m else m)"

text \<open>A decimal literal such as \<^verbatim>\<open>1e-5f\<close> denotes the nearest binary32 value.\<close>

definition f_lit :: "rat \<Rightarrow> float" where
  "f_lit x = mk_float (x < 0) (round_mag \<bar>x\<bar>)"

text \<open>Operations that produce a NaN produce the quiet NaN; no claim depends on which.\<close>

definition qNaN :: float where
  "qNaN = 2143289344"

definition fadd :: "float \<Rightarrow> float \<Rightarrow> float" where
  "fadd a b =
     (if IsNan a \<or> IsNan b then qNaN
      else if f_isinf a then (if f_isinf b \<and> f_sign a \<noteq> f_sign b then qNaN else a)
      else if f_isinf b then b
      else (let r = f_val a + f_val b in
            if r = 0 then mk_float (f_sign a \<and> f_sign b) 0
            else mk_float (r < 0) (round_mag \<bar>r\<bar>)))"

definition fneg :: "float \<Rightarrow> float" where
  "fneg a = a XOR 2147483648"

definition fsub :: "float \<Rightarrow> float \<Rightarrow> float" where
  "fsub a b = fadd a (fneg b)"

definition fmul :: "float \<Rightarrow> float \<Rightarrow> float" where
  "fmul a b =
     (if IsNan a \<or> IsNan b then qNaN
      else if f_isinf a \<or> f_isinf b then
        (if f_mag a = 0 \<or> f_mag b = 0 then qNaN
         else mk_float (f_sign a \<noteq> f_sign b) 2139095040)
      else mk_float (f_sign a \<noteq> f_sign b) (round_mag (f_absval a * f_absval b)))"

definition fdiv :: "float \<Rightarrow> float \<Rightarrow> float" where
  "fdiv a b =
     (if IsNan a \<or> IsNan b then qNaN
      else if f_isinf a then
        (if f_isinf b then qNaN else mk_float (f_sign a \<noteq> f_sign b) 2139095040)
      else if f_isinf b then mk_float (f_sign a \<noteq> f_sign b) 0
      else if f_mag b = 0 then
        (if f_mag a = 0 then qNaN else mk_float (f_sign a \<noteq> f_sign b) 2139095040)
      else mk_float (f_sign a \<noteq> f_sign b) (round_mag (f_absval a / f_absval b)))"

text \<open>The conversion \<^verbatim>\<open>(float)n\<close> of an \<^verbatim>\<open>unsigned long\<close>.\<close>

definition u2f :: "nat \<Rightarrow> float" where
  "u2f n = mk_float False (round_mag (of_nat n))"

text \<open>
  The conversion of a half (IEEE 754 binary16, given by its bits) to \<^verbatim>\<open>float\<close>, which is
  exact: zeros, subnormals, normal values, and infinities and NaNs with the fraction kept.
\<close>

definition half_to_float :: "16 word \<Rightarrow> float" where
  "half_to_float h =
     (let e = (uint h div 2 ^ 10) mod 32; m = uint h mod 2 ^ 10 in
      mk_float (bit h 15)
        (if e = 0 then round_mag (of_int m * 2 powi (- 24))
         else if e = 31 then 2139095040 + m * 2 ^ 13
         else (e + 112) * 2 ^ 23 + m * 2 ^ 13))"

section \<open>Enumerations and errors\<close>

datatype Interpolation =
    INTERP_UNKNOWN | INTERP_NEAREST | INTERP_LINEAR | INTERP_TETRAHEDRAL
  | INTERP_CUBIC | INTERP_DEFAULT | INTERP_BEST

datatype TransformDirection = TRANSFORM_DIR_FORWARD | TRANSFORM_DIR_INVERSE

datatype Lut1DHueAdjust = HUE_NONE | HUE_DW3

datatype LutInversionQuality = LUT_INVERSION_EXACT | LUT_INVERSION_FAST

datatype BitDepth =
    BIT_DEPTH_UNKNOWN | BIT_DEPTH_UINT8 | BIT_DEPTH_UINT10 | BIT_DEPTH_UINT12
  | BIT_DEPTH_UINT14 | BIT_DEPTH_UINT16 | BIT_DEPTH_UINT32 | BIT_DEPTH_F16 | BIT_DEPTH_F32

datatype ComposeMethod = COMPOSE_RESAMPLE_NO | COMPOSE_RESAMPLE_BIG | COMPOSE_RESAMPLE_HD

text \<open>
  The half flags are a bit mask (the code sets and clears them with \<^verbatim>\<open>|\<close> and \<^verbatim>\<open>& ~\<close>).
\<close>

type_synonym HalfFlags = "8 word"

definition LUT_STANDARD :: HalfFlags where "LUT_STANDARD = 0"
definition LUT_INPUT_HALF_CODE :: HalfFlags where "LUT_INPUT_HALF_CODE = 1"
definition LUT_OUTPUT_HALF_CODE :: HalfFlags where "LUT_OUTPUT_HALF_CODE = 2"

definition IsInputHalfDomain :: "HalfFlags \<Rightarrow> bool" where
  "IsInputHalfDomain halfFlags = (halfFlags AND LUT_INPUT_HALF_CODE = LUT_INPUT_HALF_CODE)"

text \<open>
  Every failure of the code is a thrown \<^verbatim>\<open>Exception\<close> carrying a message; one constructor
  stands for each message, with the values the message prints:
  \<^item> \<open>LengthTooSmall\<close>: "LUT 1D length needs to be at least 2."
  \<^item> \<open>LengthTooLarge n\<close>: "LUT 1D: Length 'n' must not be greater than 1024x1024 (1048576)."
  \<^item> \<open>UnsupportedInterpolation i\<close>: "1D LUT does not support interpolation algorithm: i."
  \<^item> \<open>ArrayIssue msg\<close>: "1D LUT content array issue: msg"
  \<^item> \<open>HalfDomainEntries n\<close>: "1D LUT: n entries found, 65536 required for halfDomain 1D LUT."
  \<^item> \<open>UnsupportedBitDepth d\<close>: "Bit-depth is not supported: d"
  \<^item> \<open>NothingToCompose\<close>: "There is nothing to compose the 1D LUT with"
  \<^item> \<open>ExpectsInverse\<close>: "MakeFastLut1DFromInverse expects an inverse 1D LUT"
\<close>

datatype error =
    LengthTooSmall
  | LengthTooLarge nat
  | UnsupportedInterpolation Interpolation
  | ArrayIssue string
  | HalfDomainEntries nat
  | UnsupportedBitDepth BitDepth
  | NothingToCompose
  | ExpectsInverse

definition HALF_DOMAIN_REQUIRED_ENTRIES :: nat where
  "HALF_DOMAIN_REQUIRED_ENTRIES = 65536"

section \<open>The sample array\<close>

text \<open>
  \<^verbatim>\<open>Lut3by1DArray\<close>: the number of rows, the number of active colour components, and the
  values, row-major and channel-interleaved.  Lengths and indices are \<^verbatim>\<open>unsigned long\<close>
  in the code; they are natural numbers here, and no computation on them comes near
  \<open>2\<^sup>6\<^sup>4\<close> once the length check of \<^verbatim>\<open>resize\<close> has passed.
\<close>

record Lut3by1DArray =
  m_length :: nat
  m_numColorComponents :: nat
  m_data :: "float list"

text \<open>
  Modelled from the spec: \<^verbatim>\<open>getMaxColorComponents\<close> of the array base class, whose
  source is not part of the sources at hand: "max_channels is always 3 for layout purposes
  even when the logical channel count is 1".
\<close>

definition getMaxColorComponents :: nat where
  "getMaxColorComponents = 3"

definition getNumValues :: "Lut3by1DArray \<Rightarrow> nat" where
  "getNumValues a = m_length a * getMaxColorComponents"

text \<open>
  Modelled from the spec: \<^verbatim>\<open>Array::resize\<close> of the array base class, whose source is
  missing.  It records the new length and component count and resizes the storage to
  \<open>length \<times> max_channels\<close> values; the storage is a \<^verbatim>\<open>std::vector\<close>, which keeps the values
  it has and appends zeros.
\<close>

definition Array_resize :: "Lut3by1DArray \<Rightarrow> nat \<Rightarrow> nat \<Rightarrow> Lut3by1DArray" where
  "Array_resize a len numColorComponents =
     (let n = len * getMaxColorComponents in
      \<lparr> m_length = len, m_numColorComponents = numColorComponents,
        m_data = take n (m_data a) @ replicate (n - length (m_data a)) 0 \<rparr>)"

definition Lut3by1DArray_resize ::
  "Lut3by1DArray \<Rightarrow> nat \<Rightarrow> nat \<Rightarrow> error + Lut3by1DArray" where
  "Lut3by1DArray_resize a len numColorComponents =
     (if len < 2 then Inl LengthTooSmall
      else if len > 1024 * 1024 then Inl (LengthTooLarge len)
      else Inr (Array_resize a len numColorComponents))"

text \<open>
  \<^verbatim>\<open>fill\<close>: the two nested loops over rows and channels, writing the ideal value of the
  row into each of its \<open>maxChannels\<close> slots.  The row index is cast to
  \<^verbatim>\<open>unsigned short\<close> before it is taken as the bits of a half.
\<close>

definition fill_row :: "float \<Rightarrow> nat \<Rightarrow> float list \<Rightarrow> float list" where
  "fill_row ftemp row values =
     fold (\<lambda>channel vs. vs[channel + row := ftemp]) [0..<getMaxColorComponents] values"

definition Lut3by1DArray_fill :: "HalfFlags \<Rightarrow> Lut3by1DArray \<Rightarrow> Lut3by1DArray" where
  "Lut3by1DArray_fill halfFlags a =
     (let dim = m_length a; maxChannels = getMaxColorComponents in
      if IsInputHalfDomain halfFlags then
        a\<lparr>m_data :=
            fold (\<lambda>idx. fill_row (half_to_float (of_nat idx)) (maxChannels * idx))
              [0..<dim] (m_data a)\<rparr>
      else
        (let stepValue = fdiv (f_lit 1) (fsub (u2f dim) (f_lit 1)) in
         a\<lparr>m_data :=
             fold (\<lambda>idx. fill_row (fmul (u2f idx) stepValue) (maxChannels * idx))
               [0..<dim] (m_data a)\<rparr>))"

text \<open>The array a constructor starts from: no rows, no values.\<close>

definition Array_empty :: Lut3by1DArray where
  "Array_empty = \<lparr> m_length = 0, m_numColorComponents = 0, m_data = [] \<rparr>"

text \<open>The constructor \<^verbatim>\<open>Lut3by1DArray(halfFlags, len)\<close>.\<close>

definition Lut3by1DArray_new :: "HalfFlags \<Rightarrow> nat \<Rightarrow> error + Lut3by1DArray" where
  "Lut3by1DArray_new halfFlags len =
     (if len < 2 then Inl LengthTooSmall
      else (case Lut3by1DArray_resize Array_empty len getMaxColorComponents of
              Inl e \<Rightarrow> Inl e
            | Inr a \<Rightarrow> Inr (Lut3by1DArray_fill halfFlags a)))"

section \<open>The 1D LUT\<close>

record ComponentProperties =
  isIncreasing :: bool
  startDomain :: nat
  endDomain :: nat
  negStartDomain :: nat
  negEndDomain :: nat

text \<open>
  \<^verbatim>\<open>Lut1DOpData\<close>.  The format metadata is the part of the base class \<^verbatim>\<open>OpData\<close> that
  the code reads; its type is a parameter, since its source is missing.
\<close>

record 'm Lut1DOpData =
  m_metadata :: 'm
  m_interpolation :: Interpolation
  m_array :: Lut3by1DArray
  m_halfFlags :: HalfFlags
  m_hueAdjust :: Lut1DHueAdjust
  m_direction :: TransformDirection
  m_invQuality :: LutInversionQuality
  m_componentProperties :: "ComponentProperties list"
  m_fileOutputBitDepth :: BitDepth
  m_cacheID :: string

text \<open>
  Modelled from the spec: \<^verbatim>\<open>CreateLut1DOp\<close> and the operator it creates, whose source is
  missing.  The evaluator chain is "an ordered sequence of opaque pixel transforms
  (including, possibly, other LUT1Ds)"; the only evaluators this code creates wrap a LUT
  and the direction in which it is applied.
\<close>

datatype 'm Op = Lut1DOp "'m Lut1DOpData" TransformDirection

definition CreateLut1DOp ::
  "'m Op list \<Rightarrow> 'm Lut1DOpData \<Rightarrow> TransformDirection \<Rightarrow> 'm Op list" where
  "CreateLut1DOp ops lut direction = ops @ [Lut1DOp lut direction]"

text \<open>
  The collaborators of the code whose source is missing are parameters of the model:
  \<^item> \<open>FormatMetadata_empty\<close>, \<open>FormatMetadata_combine\<close>: the metadata of a newly
    constructed \<^verbatim>\<open>OpData\<close>, and \<^verbatim>\<open>FormatMetadataImpl::combine\<close>;
  \<^item> \<open>Array_validate\<close>: the structural check \<^verbatim>\<open>Array::validate\<close> of the value array,
    \<open>Some msg\<close> when it throws;
  \<^item> \<open>CacheIDHash\<close>: \<^verbatim>\<open>GetPrintableHash\<close> of the MD5 digest of the raw bytes of the
    values (\<^verbatim>\<open>md5_init\<close>, \<^verbatim>\<open>md5_append\<close>, \<^verbatim>\<open>md5_finish\<close>);
  \<^item> \<open>TransformDirectionToString\<close>, \<open>InterpolationToString\<close>: the names of the
    enumeration values;
  \<^item> \<open>EvalTransform\<close>: the evaluation of \<open>numPixels\<close> RGB pixels through a chain of
    operators, from the values given to the values written in their place.
\<close>

record 'm env =
  FormatMetadata_empty :: 'm
  FormatMetadata_combine :: "'m \<Rightarrow> 'm \<Rightarrow> 'm"
  Array_validate :: "Lut3by1DArray \<Rightarrow> string option"
  CacheIDHash :: "float list \<Rightarrow> string"
  TransformDirectionToString :: "TransformDirection \<Rightarrow> string"
  InterpolationToString :: "Interpolation \<Rightarrow> string"
  EvalTransform :: "'m Op list \<Rightarrow> nat \<Rightarrow> float list \<Rightarrow> float list"

definition defaultComponentProperties :: ComponentProperties where
  "defaultComponentProperties =
     \<lparr> isIncreasing = False, startDomain = 0, endDomain = 0,
       negStartDomain = 0, negEndDomain = 0 \<rparr>"

text \<open>
  The constructor \<^verbatim>\<open>Lut1DOpData(halfFlags, dimension)\<close>; it fails when the constructor of
  its array does.  The other two constructors build a standard-domain LUT.
\<close>

definition Lut1DOpData_new ::
  "'m env \<Rightarrow> HalfFlags \<Rightarrow> nat \<Rightarrow> error + 'm Lut1DOpData" where
  "Lut1DOpData_new E halfFlags dimension =
     (case Lut3by1DArray_new halfFlags dimension of
        Inl e \<Rightarrow> Inl e
      | Inr arr \<Rightarrow> Inr
          \<lparr> m_metadata = FormatMetadata_empty E,
            m_interpolation = INTERP_DEFAULT,
            m_array = arr,
            m_halfFlags = halfFlags,
            m_hueAdjust = HUE_NONE,
            m_direction = TRANSFORM_DIR_FORWARD,
            m_invQuality = LUT_INVERSION_FAST,
            m_componentProperties = replicate 3 defaultComponentProperties,
            m_fileOutputBitDepth = BIT_DEPTH_UNKNOWN,
            m_cacheID = [] \<rparr>)"

definition Lut1DOpData_new_dir ::
  "'m env \<Rightarrow> nat \<Rightarrow> TransformDirection \<Rightarrow> error + 'm Lut1DOpData" where
  "Lut1DOpData_new_dir E dimension dir =
     (case Lut1DOpData_new E LUT_STANDARD dimension of
        Inl e \<Rightarrow> Inl e
      | Inr lut \<Rightarrow> Inr (lut\<lparr>m_direction := dir\<rparr>))"

definition isInputHalfDomain :: "'m Lut1DOpData \<Rightarrow> bool" where
  "isInputHalfDomain lut = IsInputHalfDomain (m_halfFlags lut)"

definition getConcreteInterpolation :: "'m Lut1DOpData \<Rightarrow> Interpolation" where
  "getConcreteInterpolation lut = INTERP_LINEAR"

fun IsValid :: "Interpolation \<Rightarrow> bool" where
  "IsValid INTERP_BEST = True"
| "IsValid INTERP_DEFAULT = True"
| "IsValid INTERP_LINEAR = True"
| "IsValid INTERP_NEAREST = True"
| "IsValid INTERP_CUBIC = False"
| "IsValid INTERP_TETRAHEDRAL = False"
| "IsValid INTERP_UNKNOWN = False"

text \<open>
  Modelled from the spec: the base-class check \<^verbatim>\<open>OpData::validate\<close>, whose source is
  missing; the specification lists no failure of \<open>validate\<close> that comes from it.
\<close>

definition OpData_validate :: "'m Lut1DOpData \<Rightarrow> error + unit" where
  "OpData_validate lut = Inr ()"

definition validate :: "'m env \<Rightarrow> 'm Lut1DOpData \<Rightarrow> error + unit" where
  "validate E lut =
     (case OpData_validate lut of
        Inl e \<Rightarrow> Inl e
      | Inr _ \<Rightarrow>
          if \<not> IsValid (m_interpolation lut)
          then Inl (UnsupportedInterpolation (m_interpolation lut))
          else (case Array_validate E (m_array lut) of
                  Some msg \<Rightarrow> Inl (ArrayIssue msg)
                | None \<Rightarrow>
                    if isInputHalfDomain lut
                       \<and> m_length (m_array lut) \<noteq> HALF_DOMAIN_REQUIRED_ENTRIES
                    then Inl (HalfDomainEntries (m_length (m_array lut)))
                    else Inr ()))"

subsection \<open>Lookup domains\<close>






subsection \<open>Equality, cloning, inversion\<close>

text \<open>
  Modelled from the spec: the equality of two value arrays (\<^verbatim>\<open>Array::operator==\<close>, whose
  source is missing): "equal value arrays", that is the same dimensions and the same
  values under the comparison \<^verbatim>\<open>==\<close> of \<^verbatim>\<open>float\<close>.
\<close>

definition Array_equals :: "Lut3by1DArray \<Rightarrow> Lut3by1DArray \<Rightarrow> bool" where
  "Array_equals a b =
     (m_length a = m_length b \<and> m_numColorComponents a = m_numColorComponents b
      \<and> list_all2 flt_eq (m_data a) (m_data b))"

definition haveEqualBasics :: "'m Lut1DOpData \<Rightarrow> 'm Lut1DOpData \<Rightarrow> bool" where
  "haveEqualBasics A B =
     (m_halfFlags A = m_halfFlags B \<and> m_hueAdjust A = m_hueAdjust B
      \<and> Array_equals (m_array A) (m_array B))"

text \<open>
  Modelled from the spec: \<^verbatim>\<open>OpData::operator==\<close> of the base class, whose source is
  missing; the specification of \<open>equals\<close> lists no condition that comes from it.
\<close>

definition OpData_equals :: "'m Lut1DOpData \<Rightarrow> 'm Lut1DOpData \<Rightarrow> bool" where
  "OpData_equals A B = True"

definition equals :: "'m Lut1DOpData \<Rightarrow> 'm Lut1DOpData \<Rightarrow> bool" where
  "equals A B =
     (if \<not> OpData_equals A B then False
      else if m_direction A \<noteq> m_direction B
              \<or> getConcreteInterpolation A \<noteq> getConcreteInterpolation B
      then False
      else haveEqualBasics A B)"

definition clone :: "'m Lut1DOpData \<Rightarrow> 'm Lut1DOpData" where
  "clone lut = lut"

definition Lut1DOpData_inverse :: "'m Lut1DOpData \<Rightarrow> 'm Lut1DOpData" where
  "Lut1DOpData_inverse lut =
     (clone lut)\<lparr>m_direction :=
        (if m_direction lut = TRANSFORM_DIR_FORWARD
         then TRANSFORM_DIR_INVERSE else TRANSFORM_DIR_FORWARD)\<rparr>"

fun GetHueAdjustName :: "Lut1DHueAdjust \<Rightarrow> string" where
  "GetHueAdjustName HUE_DW3 = ''dw3''"
| "GetHueAdjustName HUE_NONE = ''none''"

subsection \<open>Extended range\<close>

definition normalMin :: float where
  "normalMin = fsub (f_lit 0) (f_lit (1 / 100000))"

definition normalMax :: float where
  "normalMax = fadd (f_lit 1) (f_lit (1 / 100000))"

fun hasExtendedRange_loop :: "float list \<Rightarrow> bool" where
  "hasExtendedRange_loop [] = False"
| "hasExtendedRange_loop (val # values) =
     (if IsNan val then hasExtendedRange_loop values
      else if flt_lt val normalMin then True
      else if flt_gt val normalMax then True
      else hasExtendedRange_loop values)"

definition hasExtendedRange :: "'m Lut1DOpData \<Rightarrow> bool" where
  "hasExtendedRange lut = hasExtendedRange_loop (m_data (m_array lut))"

subsection \<open>Preparation of an inverse LUT\<close>

text \<open>
  The reversal-flattening loops of \<^verbatim>\<open>prepareArray\<close>.  The loop of the standard domain
  runs while \<^verbatim>\<open>idx < length * maxChannels\<close>, the two loops of the half domain while
  \<^verbatim>\<open>idx <= endInd\<close>; all step by \<open>maxChannels\<close>.  A read or write outside the storage is
  undefined behaviour in C++; the theorems below are about arrays whose storage has
  \<open>length \<times> maxChannels\<close> values, where none happens.
\<close>

function flatten_lt :: "bool \<Rightarrow> nat \<Rightarrow> nat \<Rightarrow> float \<Rightarrow> float list \<Rightarrow> float list" where
  "flatten_lt increasing bound idx prevValue values =
     (if idx < bound then
        (if increasing \<noteq> flt_gt (values ! idx) prevValue
         then flatten_lt increasing bound (idx + getMaxColorComponents) prevValue
                (values[idx := prevValue])
         else flatten_lt increasing bound (idx + getMaxColorComponents) (values ! idx)
                values)
      else values)"
  by pat_completeness auto
termination
  by (relation "measure (\<lambda>(i, bound, idx, p, vs). bound - idx)")
     (auto simp: getMaxColorComponents_def)

function flatten_le :: "bool \<Rightarrow> nat \<Rightarrow> nat \<Rightarrow> float \<Rightarrow> float list \<Rightarrow> float list" where
  "flatten_le increasing endInd idx prevValue values =
     (if idx \<le> endInd then
        (if increasing \<noteq> flt_gt (values ! idx) prevValue
         then flatten_le increasing endInd (idx + getMaxColorComponents) prevValue
                (values[idx := prevValue])
         else flatten_le increasing endInd (idx + getMaxColorComponents) (values ! idx)
                values)
      else values)"
  by pat_completeness auto
termination
  by (relation "measure (\<lambda>(i, endInd, idx, p, vs). Suc endInd - idx)")
     (auto simp: getMaxColorComponents_def)

text \<open>
  The two scans of the effective-domain detection: downwards from the end while the
  previous row holds the end value, and upwards from the start while the next row holds
  the start value.
\<close>

function scanEnd :: "float list \<Rightarrow> nat \<Rightarrow> float \<Rightarrow> nat \<Rightarrow> nat \<Rightarrow> nat" where
  "scanEnd values c endValue lowest endDom =
     (if endDom > lowest
         \<and> flt_eq (values ! ((endDom - 1) * getMaxColorComponents + c)) endValue
      then scanEnd values c endValue lowest (endDom - 1)
      else endDom)"
  by pat_completeness auto
termination
  by (relation "measure (\<lambda>(vs, c, v, lowest, endDom). endDom)") auto

function scanStart :: "float list \<Rightarrow> nat \<Rightarrow> float \<Rightarrow> nat \<Rightarrow> nat \<Rightarrow> nat" where
  "scanStart values c startValue endDom startDom =
     (if startDom < endDom
         \<and> flt_eq (values ! ((startDom + 1) * getMaxColorComponents + c)) startValue
      then scanStart values c startValue endDom (startDom + 1)
      else startDom)"
  by pat_completeness auto
termination
  by (relation "measure (\<lambda>(vs, c, v, endDom, startDom). endDom - startDom)") auto

text \<open>
  The defining equations of the four loops unfold without end under the simplifier's case
  splitting; they are applied by hand.
\<close>

declare flatten_lt.simps [simp del]
declare flatten_le.simps [simp del]
declare scanEnd.simps [simp del]
declare scanStart.simps [simp del]

text \<open>
  The reversal flattening of channel \<open>c\<close>, from the detected direction: one walk for the
  standard domain; for the half domain a walk over the positive rows and then, in the
  opposite direction and seeded with the value at \<open>values[c]\<close>, over the negative rows.
\<close>

definition flattenReversals :: "bool \<Rightarrow> nat \<Rightarrow> nat \<Rightarrow> bool \<Rightarrow> float list \<Rightarrow> float list" where
  "flattenReversals halfDomain len c isInc values =
     (let maxChannels = getMaxColorComponents in
      if \<not> halfDomain then
        flatten_lt isInc (len * maxChannels) (c + maxChannels) (values ! c) values
      else
        (let startInd = 0 * maxChannels + c;
             endInd = 31744 * maxChannels;
             valuesPos = flatten_le isInc endInd (startInd + maxChannels)
                           (values ! startInd) values;
             startNeg = 32768 * maxChannels + c;
             endNeg = 64512 * maxChannels
         in flatten_le (\<not> isInc) endNeg startNeg (valuesPos ! c) valuesPos))"

text \<open>
  The body of the loop over the active channels: direction detection, reversal
  flattening, effective-domain detection.  The state is the component properties and
  the values.
\<close>

definition prepareChannel ::
  "bool \<Rightarrow> nat \<Rightarrow> nat \<Rightarrow> ComponentProperties list \<times> float list
     \<Rightarrow> ComponentProperties list \<times> float list" where
  "prepareChannel halfDomain len c st =
     (case st of (props, values0) \<Rightarrow>
       (let maxChannels = getMaxColorComponents;
            lowInd = (if halfDomain then 0 * maxChannels + c else c);
            highInd = (if halfDomain then 15360 * maxChannels + c
                       else (len - 1) * maxChannels + c);
            isInc = flt_lt (values0 ! lowInd) (values0 ! highInd);
            values = flattenReversals halfDomain len c isInc values0;
            p0 = (props ! c)\<lparr>isIncreasing := isInc\<rparr>
        in
        if \<not> halfDomain then
          (let endValue = values ! ((len - 1) * maxChannels + c);
               endDom = scanEnd values c endValue 0 (len - 1);
               startValue = values ! (0 * maxChannels + c);
               startDom = scanStart values c startValue endDom 0
           in (props[c := p0\<lparr>startDomain := startDom, endDomain := endDom\<rparr>], values))
        else
          (let endValue = values ! (31743 * maxChannels + c);
               endDom = scanEnd values c endValue 0 31743;
               startValue = values ! (0 * maxChannels + c);
               startDom = scanStart values c startValue endDom 0;
               negEndValue = values ! (64511 * maxChannels + c);
               negEndDom = scanEnd values c negEndValue 32768 64511;
               negStartValue = values ! (32768 * maxChannels + c);
               negStartDom = scanStart values c negStartValue negEndDom 32768
           in (props[c := p0\<lparr>startDomain := startDom, endDomain := endDom,
                              negStartDomain := negStartDom, negEndDomain := negEndDom\<rparr>],
               values))))"

definition prepareArray :: "'m Lut1DOpData \<Rightarrow> 'm Lut1DOpData" where
  "prepareArray lut =
     (let len = m_length (m_array lut);
          activeChannels = m_numColorComponents (m_array lut);
          st = fold (prepareChannel (isInputHalfDomain lut) len) [0..<activeChannels]
                 (m_componentProperties lut, m_data (m_array lut));
          props = (if activeChannels = 1 then (fst st)[1 := fst st ! 0, 2 := fst st ! 0]
                   else fst st)
      in lut\<lparr>m_array := (m_array lut)\<lparr>m_data := snd st\<rparr>,
              m_componentProperties := props\<rparr>)"

definition initializeFromForward :: "'m Lut1DOpData \<Rightarrow> 'm Lut1DOpData" where
  "initializeFromForward lut = prepareArray lut"

subsection \<open>Finalization\<close>

text \<open>
  Modelled from the spec: \<^verbatim>\<open>adjustColorComponentNumber\<close> of the array base class, whose
  source is missing: "Normalise the channel count of the sample array (collapse to 1 if
  all three channels are identical within the array's own equality, else leave as 3)".
  The values themselves are not touched.
\<close>

definition adjustColorComponentNumber :: "Lut3by1DArray \<Rightarrow> Lut3by1DArray" where
  "adjustColorComponentNumber a =
     (if list_all (\<lambda>i. flt_eq (m_data a ! (i * getMaxColorComponents))
                              (m_data a ! (i * getMaxColorComponents + 1))
                      \<and> flt_eq (m_data a ! (i * getMaxColorComponents))
                              (m_data a ! (i * getMaxColorComponents + 2)))
           [0..<m_length a]
      then a\<lparr>m_numColorComponents := 1\<rparr>
      else a)"

text \<open>
  \<^verbatim>\<open>finalize\<close>.  Its first two statements, the preparation of an inverse LUT and the
  adjustment of the component count, are \<open>finalize_prepare\<close>; validation and the cache
  id follow.  The mutex held from validation on has no effect on the result of a single
  call.  The cache id is assembled exactly as the stream insertions of the code do:
  hash, direction name, interpolation name, each followed by a space, then
  \<^verbatim>\<open>"half domain "\<close> or \<^verbatim>\<open>"standard domain "\<close>, then the hue-adjust name.
\<close>

definition finalize_prepare :: "'m Lut1DOpData \<Rightarrow> 'm Lut1DOpData" where
  "finalize_prepare lut0 =
     (let lut1 = (if m_direction lut0 = TRANSFORM_DIR_INVERSE
                  then initializeFromForward lut0 else lut0)
      in lut1\<lparr>m_array := adjustColorComponentNumber (m_array lut1)\<rparr>)"

definition finalize :: "'m env \<Rightarrow> 'm Lut1DOpData \<Rightarrow> error + 'm Lut1DOpData" where
  "finalize E lut0 =
     (let lut = finalize_prepare lut0
      in case validate E lut of
           Inl e \<Rightarrow> Inl e
         | Inr _ \<Rightarrow> Inr (lut\<lparr>m_cacheID :=
             CacheIDHash E (m_data (m_array lut)) @ '' ''
             @ TransformDirectionToString E (m_direction lut) @ '' ''
             @ InterpolationToString E (m_interpolation lut) @ '' ''
             @ (if isInputHalfDomain lut then ''half domain '' else ''standard domain '')
             @ GetHueAdjustName (m_hueAdjust lut)\<rparr>))"

subsection \<open>Composition\<close>

definition ComposeVec :: "'m env \<Rightarrow> 'm Lut1DOpData \<Rightarrow> 'm Op list \<Rightarrow> error + 'm Lut1DOpData" where
  "ComposeVec E A B =
     (if length B = 0 then Inl NothingToCompose
      else
        (let numPixels = m_length (m_array A) in
         case Lut3by1DArray_resize (m_array A) numPixels 3 of
           Inl e \<Rightarrow> Inl e
         | Inr arr \<Rightarrow>
             Inr (A\<lparr>m_array := arr\<lparr>m_data := EvalTransform E B numPixels (m_data arr)\<rparr>\<rparr>)))"

fun compose_min_size :: "ComposeMethod \<Rightarrow> nat" where
  "compose_min_size COMPOSE_RESAMPLE_NO = 0"
| "compose_min_size COMPOSE_RESAMPLE_BIG = 65536"
| "compose_min_size COMPOSE_RESAMPLE_HD = 65536"

fun compose_needHalfDomain :: "ComposeMethod \<Rightarrow> bool" where
  "compose_needHalfDomain COMPOSE_RESAMPLE_NO = False"
| "compose_needHalfDomain COMPOSE_RESAMPLE_BIG = False"
| "compose_needHalfDomain COMPOSE_RESAMPLE_HD = True"

text \<open>
  \<^verbatim>\<open>Compose\<close>.  \<open>A\<close> is an in/out parameter of the code: the result is the new \<open>A\<close>.
  The first component of \<open>st\<close> is the chain \<open>ops\<close>, the second the LUT \<open>A\<close> points to
  after the resampling branch.
\<close>

definition Compose ::
  "'m env \<Rightarrow> 'm Lut1DOpData \<Rightarrow> 'm Lut1DOpData \<Rightarrow> ComposeMethod \<Rightarrow> error + 'm Lut1DOpData" where
  "Compose E A B compFlag =
     (let ops = [];
          min_size = compose_min_size compFlag;
          needHalfDomain = compose_needHalfDomain compFlag;
          Asz = m_length (m_array A);
          goodDomain = (isInputHalfDomain A \<or> (Asz \<ge> min_size \<and> \<not> needHalfDomain));
          useOrigDomain = (compFlag = COMPOSE_RESAMPLE_NO);
          st = (if \<not> goodDomain \<and> \<not> useOrigDomain then
                  (let ops1 = CreateLut1DOp ops A TRANSFORM_DIR_FORWARD;
                       metadata = m_metadata A
                   in case Lut1DOpData_new E
                             (if needHalfDomain then LUT_INPUT_HALF_CODE else LUT_STANDARD)
                             min_size of
                        Inl e \<Rightarrow> Inl e
                      | Inr A1 \<Rightarrow>
                          Inr (ops1, A1\<lparr>m_interpolation := m_interpolation A1,
                                        m_metadata := metadata\<rparr>))
                else Inr (ops, A))
      in case st of
           Inl e \<Rightarrow> Inl e
         | Inr (ops2, A2) \<Rightarrow>
             (let bCloned = clone B;
                  ops3 = CreateLut1DOp ops2 bCloned TRANSFORM_DIR_FORWARD
              in case ComposeVec E A2 ops3 of
                   Inl e \<Rightarrow> Inl e
                 | Inr A3 \<Rightarrow>
                     Inr (A3\<lparr>m_metadata :=
                                FormatMetadata_combine E (m_metadata A3) (m_metadata B),
                              m_hueAdjust := m_hueAdjust B\<rparr>)))"

subsection \<open>The fast inverse factory\<close>



section \<open>Notions for the properties of the preparation\<close>

text \<open>
  The indexes that a walk visits which starts at \<open>idx\<close>, advances by the three slots of a
  row and stops at \<open>bound\<close>; and the step of a walk on one value: a value that breaks the
  direction is replaced by the previous kept value.
\<close>

definition walked :: "nat \<Rightarrow> nat \<Rightarrow> nat \<Rightarrow> bool" where
  "walked idx bound j = (idx \<le> j \<and> j < bound \<and> (j - idx) mod 3 = 0)"

definition clampStep :: "bool \<Rightarrow> float \<Rightarrow> float \<Rightarrow> float" where
  "clampStep inc prev v = (if inc \<noteq> flt_gt v prev then prev else v)"

text \<open>Weak order of two values in a direction.\<close>

definition dir_le :: "bool \<Rightarrow> float \<Rightarrow> float \<Rightarrow> bool" where
  "dir_le inc a b = (if inc then flt_le a b else flt_le b a)"

text \<open>
  The direction detection and the reversal flattening of one channel, as
  \<open>prepareChannel\<close> performs them on the values (with three slots in a row, the row of
  \<open>1.0\<close> of a half domain starts at index \<open>15360 * 3 = 46080\<close>).
\<close>

definition channelDirection :: "bool \<Rightarrow> nat \<Rightarrow> nat \<Rightarrow> float list \<Rightarrow> bool" where
  "channelDirection halfDomain len c values =
     (if halfDomain then flt_lt (values ! c) (values ! (46080 + c))
      else flt_lt (values ! c) (values ! ((len - 1) * 3 + c)))"

definition flattenChannel :: "bool \<Rightarrow> nat \<Rightarrow> nat \<Rightarrow> float list \<Rightarrow> float list" where
  "flattenChannel halfDomain len c values =
     flattenReversals halfDomain len c (channelDirection halfDomain len c values) values"

text \<open>
  The shape that the array class keeps for a LUT's array: three values for every row, at
  least one row, from one to three active components.
\<close>

definition Array_invariant :: "Lut3by1DArray \<Rightarrow> bool" where
  "Array_invariant a =
     (length (m_data a) = m_length a * getMaxColorComponents \<and> 1 \<le> m_length a
      \<and> 1 \<le> m_numColorComponents a \<and> m_numColorComponents a \<le> getMaxColorComponents)"

text \<open>
  Weak monotonicity of channel \<open>c\<close> in a direction over the rows \<open>lo\<close> to \<open>hi\<close>, and the
  absence of NaN among the values of channel \<open>c\<close> on these rows.
\<close>

definition weakly_monotonic :: "bool \<Rightarrow> float list \<Rightarrow> nat \<Rightarrow> nat \<Rightarrow> nat \<Rightarrow> bool" where
  "weakly_monotonic inc values c lo hi =
     (\<forall>i\<in>{lo..hi}. \<forall>j\<in>{i..hi}. dir_le inc (values ! (i * 3 + c)) (values ! (j * 3 + c)))"

definition rows_not_nan :: "float list \<Rightarrow> nat \<Rightarrow> nat \<Rightarrow> nat \<Rightarrow> bool" where
  "rows_not_nan values c lo hi = (\<forall>i\<in>{lo..hi}. \<not> IsNan (values ! (i * 3 + c)))"

section \<open>Concrete inputs for the examples\<close>

text \<open>
  An environment in which the missing collaborators have definite values: a unit
  metadata, the two checks of an array whose storage must match its length, the names of
  the enumeration values, a stand-in for the digest (the number of values, in unary), and
  an evaluator that leaves the samples as they are.
\<close>

definition env0 :: "unit env" where
  "env0 =
     \<lparr> FormatMetadata_empty = (),
       FormatMetadata_combine = (\<lambda>a b. ()),
       Array_validate = (\<lambda>a.
         if m_length a = 0 then Some ''Array content is empty.''
         else if length (m_data a) \<noteq> m_length a * 3
         then Some ''Array content does not have the expected number of values.''
         else None),
       CacheIDHash = (\<lambda>vs. CHR ''$'' # replicate (length vs) CHR ''f''),
       TransformDirectionToString = (\<lambda>d.
         case d of TRANSFORM_DIR_FORWARD \<Rightarrow> ''forward''
                 | TRANSFORM_DIR_INVERSE \<Rightarrow> ''inverse''),
       InterpolationToString = (\<lambda>i.
         case i of INTERP_UNKNOWN \<Rightarrow> ''unknown'' | INTERP_NEAREST \<Rightarrow> ''nearest''
                 | INTERP_LINEAR \<Rightarrow> ''linear'' | INTERP_TETRAHEDRAL \<Rightarrow> ''tetrahedral''
                 | INTERP_CUBIC \<Rightarrow> ''cubic'' | INTERP_DEFAULT \<Rightarrow> ''default''
                 | INTERP_BEST \<Rightarrow> ''best''),
       EvalTransform = (\<lambda>ops numPixels vs. vs) \<rparr>"

text \<open>A LUT over given rows, each row given as its three channel values in turn.\<close>

definition lut_of :: "HalfFlags \<Rightarrow> TransformDirection \<Rightarrow> nat \<Rightarrow> float list \<Rightarrow> unit Lut1DOpData" where
  "lut_of halfFlags dir len vs =
     \<lparr> m_metadata = (),
       m_interpolation = INTERP_DEFAULT,
       m_array = \<lparr> m_length = len, m_numColorComponents = 3, m_data = vs \<rparr>,
       m_halfFlags = halfFlags,
       m_hueAdjust = HUE_NONE,
       m_direction = dir,
       m_invQuality = LUT_INVERSION_FAST,
       m_componentProperties = replicate 3 defaultComponentProperties,
       m_fileOutputBitDepth = BIT_DEPTH_UNKNOWN,
       m_cacheID = [] \<rparr>"

text \<open>The patterns of \<open>0.0\<close>, \<open>1.0\<close>, \<open>2.0\<close> and \<open>3.0\<close>, and the identity of length 2.\<close>

definition f_zero :: float where "f_zero = 0"
definition f_one :: float where "f_one = 1065353216"
definition f_two :: float where "f_two = 1073741824"
definition f_three :: float where "f_three = 1077936128"

definition lut_id2 :: "unit Lut1DOpData" where
  "lut_id2 = lut_of LUT_STANDARD TRANSFORM_DIR_FORWARD 2
               [f_zero, f_zero, f_zero, f_one, f_one, f_one]"


text \<open>
  Inverse LUTs of four rows: one with a reversal between rows 1 and 2, and one with a NaN
  in row 1.
\<close>

definition lut_rev4 :: "unit Lut1DOpData" where
  "lut_rev4 = lut_of LUT_STANDARD TRANSFORM_DIR_INVERSE 4
     [f_zero, f_zero, f_zero, f_two, f_two, f_two, f_one, f_one, f_one,
      f_three, f_three, f_three]"

definition lut_nan4 :: "unit Lut1DOpData" where
  "lut_nan4 = lut_of LUT_STANDARD TRANSFORM_DIR_INVERSE 4
     [f_two, f_two, f_two, qNaN, qNaN, qNaN, f_three, f_three, f_three,
      f_one, f_one, f_one]"

text \<open>
  A half-domain inverse LUT whose channels 0 and 1 hold \<open>1.0\<close> in row 0, \<open>2.0\<close> in the
  row 15360 of \<open>1.0\<close> and \<open>0.0\<close> in every other row, and whose channel 2 holds \<open>0.0\<close>
  throughout.
\<close>

definition lut_inf :: "unit Lut1DOpData" where
  "lut_inf = lut_of LUT_INPUT_HALF_CODE TRANSFORM_DIR_INVERSE 65536
     ((replicate 196608 f_zero)[0 := f_one, 1 := f_one, 46080 := f_two, 46081 := f_two])"

section \<open>Construction of the sample array\<close>

lemma fill_row_eq:
  "fill_row ftemp row values = values[row := ftemp, Suc row := ftemp, Suc (Suc row) := ftemp]"
  by (simp add: fill_row_def getMaxColorComponents_def upt_rec numeral_3_eq_3)

lemma fill_rows_prefix:
  "k * 3 \<le> length vs \<Longrightarrow>
   length (fold (\<lambda>idx. fill_row (f idx) (3 * idx)) [0..<k] vs) = length vs \<and>
   (\<forall>i<k. \<forall>c<3. fold (\<lambda>idx. fill_row (f idx) (3 * idx)) [0..<k] vs ! (3 * i + c) = f i)"
proof (induction k)
  case 0
  then show ?case by simp
next
  case (Suc k)
  let ?r = "fold (\<lambda>idx. fill_row (f idx) (3 * idx)) [0..<k] vs"
  from Suc have len: "length ?r = length vs"
    and old: "\<And>i c. i < k \<Longrightarrow> c < 3 \<Longrightarrow> ?r ! (3 * i + c) = f i"
    by auto
  have step: "fold (\<lambda>idx. fill_row (f idx) (3 * idx)) [0..<Suc k] vs = fill_row (f k) (3 * k) ?r"
    by simp
  have bound: "3 * k + 2 < length ?r" using Suc.prems len by simp
  show ?case
  proof (intro conjI allI impI)
    show "length (fold (\<lambda>idx. fill_row (f idx) (3 * idx)) [0..<Suc k] vs) = length vs"
      by (simp add: len fill_row_eq)
  next
    fix i c assume i: "i < Suc k" and c: "c < (3::nat)"
    show "fold (\<lambda>idx. fill_row (f idx) (3 * idx)) [0..<Suc k] vs ! (3 * i + c) = f i"
    proof (cases "i = k")
      case True
      from c have "c = 0 \<or> c = 1 \<or> c = 2" by arith
      with bound True show ?thesis
        by (auto simp: step fill_row_eq nth_list_update)
    next
      case False
      with i have ik: "i < k" by simp
      then have ne: "3 * i + c \<noteq> 3 * k" "3 * i + c \<noteq> Suc (3 * k)"
        "3 * i + c \<noteq> Suc (Suc (3 * k))"
        using c by arith+
      have "fill_row (f k) (3 * k) ?r ! (3 * i + c) = ?r ! (3 * i + c)"
        using ne by (simp add: fill_row_eq nth_list_update)
      with old[OF ik c] show ?thesis by (simp only: step)
    qed
  qed
qed

lemma Lut3by1DArray_new_ok:
  assumes "2 \<le> len" "len \<le> 1048576"
  shows "Lut3by1DArray_new hf len =
     Inr (Lut3by1DArray_fill hf
            \<lparr> m_length = len, m_numColorComponents = 3, m_data = replicate (len * 3) 0 \<rparr>)"
  using assms
  by (simp add: Lut3by1DArray_new_def Lut3by1DArray_resize_def Array_resize_def Array_empty_def
      getMaxColorComponents_def)

lemma fill_props:
  "m_length (Lut3by1DArray_fill hf a) = m_length a"
  "m_numColorComponents (Lut3by1DArray_fill hf a) = m_numColorComponents a"
  by (simp_all add: Lut3by1DArray_fill_def Let_def)

lemma fill_values:
  assumes "length (m_data a) = m_length a * 3"
  shows "length (m_data (Lut3by1DArray_fill hf a)) = m_length a * 3"
    and "i < m_length a \<Longrightarrow> c < 3 \<Longrightarrow>
      m_data (Lut3by1DArray_fill hf a) ! (3 * i + c) =
        (if IsInputHalfDomain hf then half_to_float (of_nat i)
         else fmul (u2f i) (fdiv (f_lit 1) (fsub (u2f (m_length a)) (f_lit 1))))"
  using assms fill_rows_prefix[of "m_length a" "m_data a"]
  by (simp_all add: Lut3by1DArray_fill_def Let_def getMaxColorComponents_def)

lemma Lut3by1DArray_new_cases:
  "Lut3by1DArray_new hf len =
     (if len < 2 then Inl LengthTooSmall
      else if 1048576 < len then Inl (LengthTooLarge len)
      else Inr (Lut3by1DArray_fill hf
            \<lparr> m_length = len, m_numColorComponents = 3, m_data = replicate (len * 3) 0 \<rparr>))"
  by (simp add: Lut3by1DArray_new_def Lut3by1DArray_resize_def Array_resize_def Array_empty_def
      getMaxColorComponents_def)

lemma new_array_shape:
  assumes "Lut3by1DArray_new hf len = Inr a"
  shows "m_length a = len" "m_numColorComponents a = 3" "length (m_data a) = len * 3"
    "2 \<le> len" "len \<le> 1048576"
proof -
  let ?a0 = "\<lparr> m_length = len, m_numColorComponents = 3, m_data = replicate (len * 3) 0 \<rparr>"
  from assms have r: "2 \<le> len" "len \<le> 1048576" and a: "a = Lut3by1DArray_fill hf ?a0"
    by (auto simp: Lut3by1DArray_new_cases split: if_splits)
  show "2 \<le> len" "len \<le> 1048576" by (rule r)+
  show "m_length a = len" "m_numColorComponents a = 3" by (simp_all add: a fill_props)
  have "length (m_data ?a0) = m_length ?a0 * 3" by simp
  from fill_values(1)[OF this, of hf] show "length (m_data a) = len * 3" by (simp add: a)
qed

lemma new_array_values:
  assumes "Lut3by1DArray_new hf len = Inr a" "i < len" "c < 3"
  shows "m_data a ! (3 * i + c) =
           (if IsInputHalfDomain hf then half_to_float (of_nat i)
            else fmul (u2f i) (fdiv (f_lit 1) (fsub (u2f len) (f_lit 1))))"
proof -
  let ?a0 = "\<lparr> m_length = len, m_numColorComponents = 3, m_data = replicate (len * 3) 0 \<rparr>"
  from assms(1) have a: "a = Lut3by1DArray_fill hf ?a0"
    by (auto simp: Lut3by1DArray_new_cases split: if_splits)
  have "length (m_data ?a0) = m_length ?a0 * 3" by simp
  from fill_values(2)[OF this, of i c hf] assms(2,3) show ?thesis by (simp add: a)
qed

text \<open>
  C9.  The construction of a sample array fails for every length below 2 and every length
  above 1,048,576; for every length from 2 to 1,048,576, both included, it succeeds, and
  the array it returns has that length, three stored components per row, and in every
  slot of row \<open>i\<close> the identity value that \<open>fill\<close> computes for the row: the float of
  the half with bits \<open>i\<close> for a half domain, and \<open>(float)i * (1.0f / ((float)len - 1.0f))\<close>
  otherwise.
\<close>

theorem Lut3by1DArray_new_bounds:
  "(len < 2 \<or> 1048576 < len \<longrightarrow> (\<exists>e. Lut3by1DArray_new hf len = Inl e)) \<and>
   (2 \<le> len \<and> len \<le> 1048576 \<longrightarrow>
      (\<exists>a. Lut3by1DArray_new hf len = Inr a \<and> m_length a = len
           \<and> m_numColorComponents a = 3 \<and> length (m_data a) = len * 3
           \<and> (\<forall>i<len. \<forall>c<3. m_data a ! (3 * i + c) =
                 (if IsInputHalfDomain hf then half_to_float (of_nat i)
                  else fmul (u2f i) (fdiv (f_lit 1) (fsub (u2f len) (f_lit 1)))))))"
proof (intro conjI impI)
  assume "len < 2 \<or> 1048576 < len"
  then show "\<exists>e. Lut3by1DArray_new hf len = Inl e"
    by (auto simp: Lut3by1DArray_new_def Lut3by1DArray_resize_def)
next
  assume r: "2 \<le> len \<and> len \<le> 1048576"
  let ?a0 = "\<lparr> m_length = len, m_numColorComponents = 3, m_data = replicate (len * 3) 0 \<rparr>"
  have l0: "length (m_data ?a0) = m_length ?a0 * 3" by simp
  show "\<exists>a. Lut3by1DArray_new hf len = Inr a \<and> m_length a = len
           \<and> m_numColorComponents a = 3 \<and> length (m_data a) = len * 3
           \<and> (\<forall>i<len. \<forall>c<3. m_data a ! (3 * i + c) =
                 (if IsInputHalfDomain hf then half_to_float (of_nat i)
                  else fmul (u2f i) (fdiv (f_lit 1) (fsub (u2f len) (f_lit 1)))))"
    using r Lut3by1DArray_new_ok[of len hf] fill_values(1)[OF l0, of hf]
      fill_values(2)[OF l0, of _ _ hf] fill_props[of hf ?a0]
    by simp
qed

theorem Lut3by1DArray_new_bounds_witness:
  "(\<exists>e. Lut3by1DArray_new LUT_STANDARD 1 = Inl e) \<and>
   (\<exists>e. Lut3by1DArray_new LUT_STANDARD 1048577 = Inl e) \<and>
   (\<exists>a. Lut3by1DArray_new LUT_STANDARD 2 = Inr a \<and> m_length a = 2) \<and>
   (\<exists>a. Lut3by1DArray_new LUT_INPUT_HALF_CODE 1048576 = Inr a \<and> m_length a = 1048576)"
  using Lut3by1DArray_new_bounds[of 1 LUT_STANDARD]
        Lut3by1DArray_new_bounds[of 1048577 LUT_STANDARD]
        Lut3by1DArray_new_bounds[of 2 LUT_STANDARD]
        Lut3by1DArray_new_bounds[of 1048576 LUT_INPUT_HALF_CODE]
  by auto

section \<open>Validation\<close>

text \<open>
  C8.  \<open>validate\<close> fails if and only if the interpolation is CUBIC, TETRAHEDRAL or UNKNOWN,
  or the input-half-domain flag is set and the length is not 65,536, or the structural
  check of the value array fails.  The interpolations DEFAULT, LINEAR, NEAREST and BEST
  are the remaining values of the enumeration; with them \<open>validate\<close> succeeds unless one
  of the other two conditions holds.
\<close>

theorem validate_fails_iff:
  "(\<exists>e. validate E lut = Inl e) \<longleftrightarrow>
     (m_interpolation lut \<in> {INTERP_CUBIC, INTERP_TETRAHEDRAL, INTERP_UNKNOWN}
      \<or> (IsInputHalfDomain (m_halfFlags lut) \<and> m_length (m_array lut) \<noteq> 65536)
      \<or> (\<exists>msg. Array_validate E (m_array lut) = Some msg))"
  by (cases "m_interpolation lut")
     (auto simp: validate_def OpData_validate_def isInputHalfDomain_def
        HALF_DOMAIN_REQUIRED_ENTRIES_def split: option.splits)

theorem validate_fails_iff_witness:
  "validate env0 lut_id2 = Inr ()
   \<and> (\<exists>e. validate env0 (lut_id2\<lparr>m_interpolation := INTERP_CUBIC\<rparr>) = Inl e)
   \<and> (\<exists>e. validate env0 (lut_id2\<lparr>m_halfFlags := LUT_INPUT_HALF_CODE\<rparr>) = Inl e)
   \<and> validate env0 (lut_id2\<lparr>m_interpolation := INTERP_NEAREST\<rparr>) = Inr ()"
  using validate_fails_iff[of env0 lut_id2]
        validate_fails_iff[of env0 "lut_id2\<lparr>m_interpolation := INTERP_CUBIC\<rparr>"]
        validate_fails_iff[of env0 "lut_id2\<lparr>m_halfFlags := LUT_INPUT_HALF_CODE\<rparr>"]
        validate_fails_iff[of env0 "lut_id2\<lparr>m_interpolation := INTERP_NEAREST\<rparr>"]
  by (simp add: env0_def lut_id2_def lut_of_def LUT_INPUT_HALF_CODE_def LUT_STANDARD_def
      IsInputHalfDomain_def validate_def OpData_validate_def isInputHalfDomain_def
      HALF_DOMAIN_REQUIRED_ENTRIES_def)

section \<open>Composition\<close>

lemma resize_same:
  assumes "length (m_data a) = m_length a * 3" "2 \<le> m_length a" "m_length a \<le> 1048576"
  shows "Lut3by1DArray_resize a (m_length a) 3 = Inr (a\<lparr>m_numColorComponents := 3\<rparr>)"
  using assms
  by (simp add: Lut3by1DArray_resize_def Array_resize_def getMaxColorComponents_def)

lemma ComposeVec_ok:
  assumes "length (m_data (m_array A)) = m_length (m_array A) * 3"
    "2 \<le> m_length (m_array A)" "m_length (m_array A) \<le> 1048576" "B \<noteq> []"
  shows "ComposeVec E A B =
     Inr (A\<lparr>m_array := (m_array A)\<lparr>m_numColorComponents := 3,
              m_data := EvalTransform E B (m_length (m_array A)) (m_data (m_array A))\<rparr>\<rparr>)"
  using assms by (simp add: ComposeVec_def resize_same Let_def)

lemma Compose_unfold:
  "Compose E A B compFlag =
     (if \<not> (isInputHalfDomain A
              \<or> (compose_min_size compFlag \<le> m_length (m_array A)
                  \<and> \<not> compose_needHalfDomain compFlag))
         \<and> compFlag \<noteq> COMPOSE_RESAMPLE_NO
      then (case Lut1DOpData_new E
                   (if compose_needHalfDomain compFlag then LUT_INPUT_HALF_CODE
                    else LUT_STANDARD) (compose_min_size compFlag) of
              Inl e \<Rightarrow> Inl e
            | Inr A1 \<Rightarrow>
                (case ComposeVec E (A1\<lparr>m_interpolation := m_interpolation A1,
                                        m_metadata := m_metadata A\<rparr>)
                        [Lut1DOp A TRANSFORM_DIR_FORWARD, Lut1DOp B TRANSFORM_DIR_FORWARD] of
                   Inl e \<Rightarrow> Inl e
                 | Inr A3 \<Rightarrow>
                     Inr (A3\<lparr>m_metadata :=
                                FormatMetadata_combine E (m_metadata A3) (m_metadata B),
                              m_hueAdjust := m_hueAdjust B\<rparr>)))
      else (case ComposeVec E A [Lut1DOp B TRANSFORM_DIR_FORWARD] of
              Inl e \<Rightarrow> Inl e
            | Inr A3 \<Rightarrow>
                Inr (A3\<lparr>m_metadata :=
                           FormatMetadata_combine E (m_metadata A3) (m_metadata B),
                         m_hueAdjust := m_hueAdjust B\<rparr>)))"
  by (simp add: Compose_def Let_def CreateLut1DOp_def clone_def split: sum.splits)

text \<open>
  The first and the last row of the standard identity of 65,536 rows, and the row of
  \<open>1.0\<close> of the half-domain identity.
\<close>

lemma f_lit_one: "f_lit 1 = 1065353216"
  by code_simp

lemma round_mag_65536: "round_mag 65536 = 1199570944" "round_mag 65535 = 1199570688"
  by code_simp+

lemma u2f_65536: "u2f 65536 = 1199570944" "u2f 65535 = 1199570688"
  by (simp_all add: u2f_def round_mag_65536 mk_float_def)

lemma u2f_zero: "u2f 0 = 0"
  by (simp add: u2f_def mk_float_def round_mag_def)

lemma stepValue_65536: "fdiv (f_lit 1) (fsub (u2f 65536) (f_lit 1)) = 931135616"
proof -
  have "fsub 1199570944 1065353216 = 1199570688" by code_simp
  moreover have "fdiv 1065353216 1199570688 = 931135616" by code_simp
  ultimately show ?thesis by (simp add: f_lit_one u2f_65536)
qed

lemma identity_65536_rows:
  "fmul (u2f 0) (fdiv (f_lit 1) (fsub (u2f 65536) (f_lit 1))) = f_zero"
  "fmul (u2f 65535) (fdiv (f_lit 1) (fsub (u2f 65536) (f_lit 1))) = f_one"
  "half_to_float 15360 = f_one"
proof -
  have "fmul 0 931135616 = 0" "fmul 1199570688 931135616 = 1065353216"
    "half_to_float 15360 = 1065353216"
    by code_simp+
  then show "fmul (u2f 0) (fdiv (f_lit 1) (fsub (u2f 65536) (f_lit 1))) = f_zero"
    "fmul (u2f 65535) (fdiv (f_lit 1) (fsub (u2f 65536) (f_lit 1))) = f_one"
    "half_to_float 15360 = f_one"
    by (simp_all add: stepValue_65536 u2f_65536(2) u2f_zero f_zero_def f_one_def)
qed

text \<open>
  C4.  In \<open>Compose\<close>, with \<open>goodDomain\<close> and \<open>useOrig\<close> as the code computes them:
  when neither holds, \<open>A\<close> is replaced by a newly allocated identity LUT \<open>A1\<close> of length
  \<open>min_size\<close> (which is 65,536 then), half-domain exactly when the method requires it:
  every slot of row \<open>i\<close> of \<open>A1\<close> holds the identity value of the row, the float of the
  half with bits \<open>i\<close> for a half domain and \<open>(float)i * (1.0f / (65536.0f - 1.0f))\<close>
  otherwise.  The original \<open>A\<close> is the head of the evaluator chain and \<open>B\<close> follows it,
  and the result holds the values the chain computes from the values of \<open>A1\<close>, the
  metadata of \<open>A\<close> combined with that of \<open>B\<close>, and the hue adjust of \<open>B\<close>.  Otherwise,
  for an \<open>A\<close> whose storage matches a length that \<open>resize\<close> accepts, the chain is \<open>B\<close>
  alone and is evaluated on the values of \<open>A\<close>, with the same treatment of metadata and
  hue adjust.  \<open>ComposeVec\<close> on an empty chain fails with the exception "There is nothing
  to compose the 1D LUT with".
\<close>

theorem Compose_behaviour:
  fixes A B :: "'m Lut1DOpData" and compFlag :: ComposeMethod
  defines "n \<equiv> m_length (m_array A)"
  defines "goodDomain \<equiv> isInputHalfDomain A
             \<or> (compose_min_size compFlag \<le> n \<and> \<not> compose_needHalfDomain compFlag)"
  defines "useOrig \<equiv> (compFlag = COMPOSE_RESAMPLE_NO)"
  shows
   "(\<not> goodDomain \<and> \<not> useOrig \<longrightarrow>
       (\<exists>A1 R. Lut1DOpData_new E
                  (if compose_needHalfDomain compFlag then LUT_INPUT_HALF_CODE else LUT_STANDARD)
                  (compose_min_size compFlag) = Inr A1
          \<and> m_length (m_array A1) = 65536
          \<and> length (m_data (m_array A1)) = 65536 * 3
          \<and> (\<forall>i<65536. \<forall>c<3. m_data (m_array A1) ! (3 * i + c) =
                (if compose_needHalfDomain compFlag then half_to_float (of_nat i)
                 else fmul (u2f i) (fdiv (f_lit 1) (fsub (u2f 65536) (f_lit 1)))))
          \<and> m_metadata A1 = FormatMetadata_empty E
          \<and> Compose E A B compFlag = Inr R
          \<and> m_length (m_array R) = compose_min_size compFlag
          \<and> compose_min_size compFlag = 65536
          \<and> isInputHalfDomain R = compose_needHalfDomain compFlag
          \<and> m_data (m_array R) =
              EvalTransform E [Lut1DOp A TRANSFORM_DIR_FORWARD, Lut1DOp B TRANSFORM_DIR_FORWARD]
                65536 (m_data (m_array A1))
          \<and> m_metadata R = FormatMetadata_combine E (m_metadata A) (m_metadata B)
          \<and> m_hueAdjust R = m_hueAdjust B))
    \<and> ((goodDomain \<or> useOrig) \<and> 2 \<le> n \<and> n \<le> 1048576
          \<and> length (m_data (m_array A)) = n * 3 \<longrightarrow>
       (\<exists>R. Compose E A B compFlag = Inr R
          \<and> m_length (m_array R) = n
          \<and> m_halfFlags R = m_halfFlags A
          \<and> m_data (m_array R) =
              EvalTransform E [Lut1DOp B TRANSFORM_DIR_FORWARD] n (m_data (m_array A))
          \<and> m_metadata R = FormatMetadata_combine E (m_metadata A) (m_metadata B)
          \<and> m_hueAdjust R = m_hueAdjust B))
    \<and> ComposeVec E A [] = Inl NothingToCompose"
proof (intro conjI impI)
  show "ComposeVec E A [] = Inl NothingToCompose" by (simp add: ComposeVec_def)
next
  assume h: "(goodDomain \<or> useOrig) \<and> 2 \<le> n \<and> n \<le> 1048576
          \<and> length (m_data (m_array A)) = n * 3"
  then have g: "\<not> (\<not> goodDomain \<and> \<not> useOrig)" by blast
  have cv: "ComposeVec E A [Lut1DOp B TRANSFORM_DIR_FORWARD] =
     Inr (A\<lparr>m_array := (m_array A)\<lparr>m_numColorComponents := 3,
              m_data := EvalTransform E [Lut1DOp B TRANSFORM_DIR_FORWARD] n (m_data (m_array A))\<rparr>\<rparr>)"
    using h ComposeVec_ok[of A "[Lut1DOp B TRANSFORM_DIR_FORWARD]" E] by (simp add: n_def)
  show "\<exists>R. Compose E A B compFlag = Inr R
          \<and> m_length (m_array R) = n
          \<and> m_halfFlags R = m_halfFlags A
          \<and> m_data (m_array R) =
              EvalTransform E [Lut1DOp B TRANSFORM_DIR_FORWARD] n (m_data (m_array A))
          \<and> m_metadata R = FormatMetadata_combine E (m_metadata A) (m_metadata B)
          \<and> m_hueAdjust R = m_hueAdjust B"
    using g unfolding goodDomain_def useOrig_def n_def
    by (simp only: Compose_unfold cv[unfolded n_def] if_False) simp
next
  assume h: "\<not> goodDomain \<and> \<not> useOrig"
  let ?hf = "if compose_needHalfDomain compFlag then LUT_INPUT_HALF_CODE else LUT_STANDARD"
  from h have m: "compose_min_size compFlag = 65536"
    by (cases compFlag) (simp_all add: useOrig_def)
  obtain arr where arr: "Lut3by1DArray_new ?hf 65536 = Inr arr"
    by (simp add: Lut3by1DArray_new_cases)
  note sh = new_array_shape[OF arr]
  define A1 :: "'m Lut1DOpData" where "A1 =
          \<lparr> m_metadata = FormatMetadata_empty E,
            m_interpolation = INTERP_DEFAULT,
            m_array = arr,
            m_halfFlags = ?hf,
            m_hueAdjust = HUE_NONE,
            m_direction = TRANSFORM_DIR_FORWARD,
            m_invQuality = LUT_INVERSION_FAST,
            m_componentProperties = replicate 3 defaultComponentProperties,
            m_fileOutputBitDepth = BIT_DEPTH_UNKNOWN,
            m_cacheID = [] \<rparr>"
  have new: "Lut1DOpData_new E ?hf (compose_min_size compFlag) = Inr A1"
    using arr by (simp add: Lut1DOpData_new_def m A1_def)
  let ?A2 = "A1\<lparr>m_metadata := m_metadata A\<rparr>"
  let ?ops = "[Lut1DOp A TRANSFORM_DIR_FORWARD, Lut1DOp B TRANSFORM_DIR_FORWARD]"
  have cv: "ComposeVec E ?A2 ?ops =
     Inr (?A2\<lparr>m_array := (m_array ?A2)\<lparr>m_numColorComponents := 3,
              m_data := EvalTransform E ?ops (m_length (m_array ?A2)) (m_data (m_array ?A2))\<rparr>\<rparr>)"
    by (rule ComposeVec_ok) (simp_all add: A1_def sh)
  have hd: "isInputHalfDomain A1 = compose_needHalfDomain compFlag"
    by (simp add: A1_def isInputHalfDomain_def IsInputHalfDomain_def LUT_INPUT_HALF_CODE_def
        LUT_STANDARD_def)
  have comp: "Compose E A B compFlag =
     Inr (?A2\<lparr>m_array := (m_array ?A2)\<lparr>m_numColorComponents := 3,
              m_data := EvalTransform E ?ops (m_length (m_array ?A2)) (m_data (m_array ?A2))\<rparr>,
          m_metadata := FormatMetadata_combine E (m_metadata A) (m_metadata B),
          m_hueAdjust := m_hueAdjust B\<rparr>)"
    using h unfolding goodDomain_def useOrig_def n_def
    by (simp add: Compose_unfold new cv)
  have vals: "\<forall>i<65536. \<forall>c<3. m_data (m_array A1) ! (3 * i + c) =
                (if compose_needHalfDomain compFlag then half_to_float (of_nat i)
                 else fmul (u2f i) (fdiv (f_lit 1) (fsub (u2f 65536) (f_lit 1))))"
    using new_array_values[OF arr]
    by (simp add: A1_def IsInputHalfDomain_def LUT_INPUT_HALF_CODE_def LUT_STANDARD_def)
  from comp show "\<exists>A1 R. Lut1DOpData_new E ?hf (compose_min_size compFlag) = Inr A1
          \<and> m_length (m_array A1) = 65536
          \<and> length (m_data (m_array A1)) = 65536 * 3
          \<and> (\<forall>i<65536. \<forall>c<3. m_data (m_array A1) ! (3 * i + c) =
                (if compose_needHalfDomain compFlag then half_to_float (of_nat i)
                 else fmul (u2f i) (fdiv (f_lit 1) (fsub (u2f 65536) (f_lit 1)))))
          \<and> m_metadata A1 = FormatMetadata_empty E
          \<and> Compose E A B compFlag = Inr R
          \<and> m_length (m_array R) = compose_min_size compFlag
          \<and> compose_min_size compFlag = 65536
          \<and> isInputHalfDomain R = compose_needHalfDomain compFlag
          \<and> m_data (m_array R) = EvalTransform E ?ops 65536 (m_data (m_array A1))
          \<and> m_metadata R = FormatMetadata_combine E (m_metadata A) (m_metadata B)
          \<and> m_hueAdjust R = m_hueAdjust B"
    using new hd m vals by (simp add: isInputHalfDomain_def A1_def sh)
qed


theorem Compose_behaviour_witness:
  "(\<exists>R. Compose env0 lut_id2 lut_id2 COMPOSE_RESAMPLE_BIG = Inr R
        \<and> m_length (m_array R) = 65536 \<and> \<not> isInputHalfDomain R \<and> m_hueAdjust R = HUE_NONE
        \<and> m_data (m_array R) ! (3 * 0 + 0) = f_zero
        \<and> m_data (m_array R) ! (3 * 65535 + 0) = f_one)
   \<and> (\<exists>R. Compose env0 lut_id2 lut_id2 COMPOSE_RESAMPLE_HD = Inr R
        \<and> m_length (m_array R) = 65536 \<and> isInputHalfDomain R
        \<and> m_data (m_array R) ! (3 * 15360 + 0) = f_one)
   \<and> (\<exists>R. Compose env0 lut_id2 lut_id2 COMPOSE_RESAMPLE_NO = Inr R
        \<and> m_length (m_array R) = 2)"
proof -
  have a: "\<not> isInputHalfDomain lut_id2" "m_length (m_array lut_id2) = 2"
    "length (m_data (m_array lut_id2)) = 2 * 3" "m_hueAdjust lut_id2 = HUE_NONE"
    by (simp_all add: lut_id2_def lut_of_def isInputHalfDomain_def IsInputHalfDomain_def
        LUT_STANDARD_def LUT_INPUT_HALF_CODE_def)
  have ev: "EvalTransform env0 ops k vs = vs" for ops k vs by (simp add: env0_def)
  from Compose_behaviour[where A = lut_id2 and B = lut_id2 and E = env0
            and compFlag = COMPOSE_RESAMPLE_BIG]
  have "\<exists>R. Compose env0 lut_id2 lut_id2 COMPOSE_RESAMPLE_BIG = Inr R
      \<and> m_length (m_array R) = 65536 \<and> \<not> isInputHalfDomain R \<and> m_hueAdjust R = HUE_NONE
      \<and> (\<forall>i<65536. \<forall>c<3. m_data (m_array R) ! (3 * i + c) =
          fmul (u2f i) (fdiv (f_lit 1) (fsub (u2f 65536) (f_lit 1))))"
    by (auto simp: a ev)
  then obtain R where big: "Compose env0 lut_id2 lut_id2 COMPOSE_RESAMPLE_BIG = Inr R"
      "m_length (m_array R) = 65536" "\<not> isInputHalfDomain R" "m_hueAdjust R = HUE_NONE"
      "\<forall>i<65536. \<forall>c<3. m_data (m_array R) ! (3 * i + c) =
          fmul (u2f i) (fdiv (f_lit 1) (fsub (u2f 65536) (f_lit 1)))"
    by blast
  have big0: "m_data (m_array R) ! (3 * 0 + 0) = f_zero"
    using big(5)[rule_format, of 0 0] by (simp add: identity_65536_rows)
  have big1: "m_data (m_array R) ! (3 * 65535 + 0) = f_one"
    using big(5)[rule_format, of 65535 0] by (simp add: identity_65536_rows)
  from Compose_behaviour[where A = lut_id2 and B = lut_id2 and E = env0
            and compFlag = COMPOSE_RESAMPLE_HD]
  have "\<exists>R. Compose env0 lut_id2 lut_id2 COMPOSE_RESAMPLE_HD = Inr R
      \<and> m_length (m_array R) = 65536 \<and> isInputHalfDomain R
      \<and> (\<forall>i<65536. \<forall>c<3. m_data (m_array R) ! (3 * i + c) = half_to_float (of_nat i))"
    by (auto simp: a ev)
  then obtain R' where hd: "Compose env0 lut_id2 lut_id2 COMPOSE_RESAMPLE_HD = Inr R'"
      "m_length (m_array R') = 65536" "isInputHalfDomain R'"
      "\<forall>i<65536. \<forall>c<3. m_data (m_array R') ! (3 * i + c) = half_to_float (of_nat i)"
    by blast
  have hd1: "m_data (m_array R') ! (3 * 15360 + 0) = f_one"
    using hd(4)[rule_format, of 15360 0] by (simp add: identity_65536_rows)
  from Compose_behaviour[where A = lut_id2 and B = lut_id2 and E = env0
            and compFlag = COMPOSE_RESAMPLE_NO]
  have "\<exists>R. Compose env0 lut_id2 lut_id2 COMPOSE_RESAMPLE_NO = Inr R
      \<and> m_length (m_array R) = 2"
    by (auto simp: a)
  then obtain R'' where no: "Compose env0 lut_id2 lut_id2 COMPOSE_RESAMPLE_NO = Inr R''"
      "m_length (m_array R'') = 2"
    by blast
  from big(1-4) big0 big1 hd(1-3) hd1 no show ?thesis by blast
qed

section \<open>The fast inverse factory\<close>

lemma normalMin_pattern: "normalMin = 3072837036"
  by code_simp

lemma normalMax_pattern: "normalMax = 1065353300"
  by code_simp






section \<open>The range of the identity values\<close>

text \<open>
  Rounding to nearest: an integer is its own rounding, the rounding of a value at most an
  integer is at most that integer, and the rounding exceeds the value by a half at most.
\<close>

lemma rne_of_int [simp]: "rne (of_int k) = k"
  by (simp add: rne_def)

lemma rne_le_int: "x \<le> of_int k \<Longrightarrow> rne x \<le> k"
proof -
  assume le: "x \<le> of_int k"
  then have f: "\<lfloor>x\<rfloor> \<le> k" by (simp add: floor_le_iff)
  show ?thesis
  proof (cases "\<lfloor>x\<rfloor> = k")
    case True
    with le have "x = of_int k" by linarith
    then show ?thesis by simp
  next
    case False
    with f have "\<lfloor>x\<rfloor> + 1 \<le> k" by simp
    then show ?thesis by (simp add: rne_def Let_def)
  qed
qed

lemma rne_ge_int: "of_int k \<le> x \<Longrightarrow> k \<le> rne x"
proof -
  assume "of_int k \<le> x"
  then have "k \<le> \<lfloor>x\<rfloor>" by (simp add: le_floor_iff)
  then show ?thesis by (simp add: rne_def Let_def)
qed

lemma rne_upper: "of_int (rne x) \<le> x + 1 / 2"
proof -
  have f: "of_int \<lfloor>x\<rfloor> \<le> x" by (rule of_int_floor_le)
  have "rne x = \<lfloor>x\<rfloor> \<or> (rne x = \<lfloor>x\<rfloor> + 1 \<and> 1 / 2 \<le> x - of_int \<lfloor>x\<rfloor>)"
    unfolding rne_def Let_def by auto
  then show ?thesis
  proof
    assume "rne x = \<lfloor>x\<rfloor>"
    with f show ?thesis by linarith
  next
    assume "rne x = \<lfloor>x\<rfloor> + 1 \<and> 1 / 2 \<le> x - of_int \<lfloor>x\<rfloor>"
    then show ?thesis by simp
  qed
qed

lemma flog2_bounds:
  assumes "0 < x"
  shows "2 powi (flog2 x) \<le> x" and "x < 2 powi (flog2 x + 1)"
proof -
  obtain p q where pq: "quotient_of x = (p, q)" by (cases "quotient_of x")
  then have q: "0 < q" and x: "x = of_int p / of_int q"
    by (simp_all add: quotient_of_denom_pos quotient_of_div)
  with assms have p: "0 < p" by (simp add: zero_less_divide_iff)
  define bp where "bp = bitlen p"
  define bq where "bq = bitlen q"
  have bpos: "1 \<le> bp" "1 \<le> bq"
    using p q bitlen_eq_zero_iff[of p] bitlen_eq_zero_iff[of q] bitlen_nonneg[of p]
      bitlen_nonneg[of q] by (simp_all add: bp_def bq_def)
  have int_bounds: "2 powi (b - 1) \<le> (of_int k :: rat) \<and> (of_int k :: rat) < 2 powi b"
    if "0 < k" "b = bitlen k" "1 \<le> b" for k b
  proof -
    from bitlen_bounds[OF that(1)] that(2)
    have "2 ^ nat (b - 1) \<le> k" "k < 2 ^ nat b" by simp_all
    then have "(of_int (2 ^ nat (b - 1)) :: rat) \<le> of_int k" "(of_int k :: rat) < of_int (2 ^ nat b)"
      by (simp_all only: of_int_le_iff of_int_less_iff)
    then show ?thesis using that(3) by (simp add: power_int_def)
  qed
  from int_bounds[OF p bp_def bpos(1)] have pb: "2 powi (bp - 1) \<le> (of_int p :: rat)"
    "(of_int p :: rat) < 2 powi bp" by simp_all
  from int_bounds[OF q bq_def bpos(2)] have qb: "2 powi (bq - 1) \<le> (of_int q :: rat)"
    "(of_int q :: rat) < 2 powi bq" by simp_all
  have pos: "(0::rat) < 2 powi k" for k by simp
  have fl: "flog2 x = (if 2 powi (bp - bq) \<le> x then bp - bq else bp - bq - 1)"
    by (simp add: flog2_def pq bp_def bq_def Let_def)
  have up: "x < 2 powi (bp - bq + 1)"
  proof -
    have "x < 2 powi bp / of_int q" unfolding x using pb(2) q
      by (simp add: divide_strict_right_mono)
    also have "\<dots> \<le> 2 powi bp / 2 powi (bq - 1)"
      using qb(1) pos[of "bq - 1"] by (intro divide_left_mono) (simp_all add: q)
    also have "\<dots> = 2 powi (bp - (bq - 1))" by (simp add: power_int_diff)
    finally show ?thesis by (simp add: algebra_simps)
  qed
  have lo: "2 powi (bp - bq - 1) \<le> x"
  proof -
    have "(2::rat) powi (bp - bq - 1) = 2 powi ((bp - 1) - bq)" by (simp add: algebra_simps)
    also have "\<dots> = 2 powi (bp - 1) / 2 powi bq" by (simp add: power_int_diff)
    also have "\<dots> \<le> of_int p / of_int q"
      using pb(1) qb(2) p q by (intro frac_le) simp_all
    finally show ?thesis by (simp add: x)
  qed
  show "2 powi (flog2 x) \<le> x" using lo by (simp add: fl)
  show "x < 2 powi (flog2 x + 1)" using up by (auto simp: fl not_le)
qed

lemma flog2_unique:
  assumes "2 powi e \<le> x" "x < 2 powi (e + 1)"
  shows "flog2 x = e"
proof -
  have "(0::rat) < 2 powi e" by simp
  with assms(1) have x: "0 < x" by linarith
  note b = flog2_bounds[OF x]
  have "\<not> flog2 x < e"
  proof
    assume "flog2 x < e"
    then have "flog2 x + 1 \<le> e" by simp
    then have "(2::rat) powi (flog2 x + 1) \<le> 2 powi e" by (intro power_int_increasing) simp_all
    with b(2) assms(1) show False by linarith
  qed
  moreover have "\<not> e < flog2 x"
  proof
    assume "e < flog2 x"
    then have "e + 1 \<le> flog2 x" by simp
    then have "(2::rat) powi (e + 1) \<le> 2 powi (flog2 x)" by (intro power_int_increasing) simp_all
    with b(1) assms(2) show False by linarith
  qed
  ultimately show ?thesis by simp
qed

text \<open>
  A pattern of sign 0 below \<open>2\<^sup>3\<^sup>1\<close> is read back as it was written, and the pattern that
  \<open>round_mag\<close> computes for a value of the normal range denotes the rounded significand
  at the exponent of the value.
\<close>

lemma mk_float_pos:
  assumes "0 \<le> p" "p < 2147483648"
  shows "f_mag (mk_float False p) = p" "\<not> f_sign (mk_float False p)"
proof -
  have u: "uint (word_of_int p :: 32 word) = p"
    using assms by (simp add: uint_word_of_int take_bit_eq_mod)
  show "f_mag (mk_float False p) = p"
    using assms by (simp add: f_mag_def mk_float_def u)
  have "p div 2 ^ 31 = 0" using assms by simp
  then have "\<not> bit p 31" by (simp add: bit_iff_odd)
  then show "\<not> f_sign (mk_float False p)"
    by (simp add: f_sign_def mk_float_def bit_word_of_int_iff)
qed

lemma pow2_flog2_le:
  assumes "0 < x" "x < 2 powi k"
  shows "flog2 x < k"
proof (rule ccontr)
  assume "\<not> flog2 x < k"
  then have "(2::rat) powi k \<le> 2 powi (flog2 x)" by (intro power_int_increasing) simp_all
  with flog2_bounds(1)[OF assms(1)] assms(2) show False by linarith
qed

lemma pow2_flog2_ge:
  assumes "2 powi k \<le> x"
  shows "k \<le> flog2 x"
proof (rule ccontr)
  have "(0::rat) < 2 powi k" by simp
  with assms have x: "0 < x" by linarith
  assume "\<not> k \<le> flog2 x"
  then have "flog2 x + 1 \<le> k" by simp
  then have "(2::rat) powi (flog2 x + 1) \<le> 2 powi k" by (intro power_int_increasing) simp_all
  with flog2_bounds(2)[OF x] assms show False by linarith
qed

lemma scaled_significand:
  assumes "0 < x"
  shows "2 ^ 23 \<le> rne (x * 2 powi (23 - flog2 x))" "rne (x * 2 powi (23 - flog2 x)) \<le> 2 ^ 24"
proof -
  define e where "e = flog2 x"
  note b = flog2_bounds[OF assms, folded e_def]
  have s: "(0::rat) < 2 powi (23 - e)" by simp
  have "2 powi e * 2 powi (23 - e) \<le> x * 2 powi (23 - e)"
    using b(1) s by (simp only: mult_le_cancel_right_pos)
  moreover have "(2::rat) powi e * 2 powi (23 - e) = 2 powi 23"
    by (simp flip: power_int_add)
  ultimately have "of_int (2 ^ 23) \<le> x * 2 powi (23 - e)" by simp
  then show "2 ^ 23 \<le> rne (x * 2 powi (23 - e))" by (rule rne_ge_int)
  have "x * 2 powi (23 - e) < 2 powi (e + 1) * 2 powi (23 - e)"
    using b(2) s by (simp only: mult_less_cancel_right_pos)
  moreover have "(2::rat) powi (e + 1) * 2 powi (23 - e) = 2 powi 24"
    by (simp flip: power_int_add)
  ultimately have "x * 2 powi (23 - e) \<le> of_int (2 ^ 24)" by simp
  then show "rne (x * 2 powi (23 - e)) \<le> 2 ^ 24" by (rule rne_le_int)
qed

lemma round_mag_normal:
  assumes "0 < x" "- 126 \<le> flog2 x" "flog2 x \<le> 126"
  shows "round_mag x = (flog2 x + 126) * 2 ^ 23 + rne (x * 2 powi (23 - flog2 x))"
proof -
  note r = scaled_significand[OF assms(1)]
  have "(flog2 x + 126) * 2 ^ 23 \<le> 252 * 2 ^ 23" using assms(3) by simp
  with r(2) have "(flog2 x + 126) * 2 ^ 23 + rne (x * 2 powi (23 - flog2 x)) < 2139095040"
    by simp
  then show ?thesis using assms by (simp add: round_mag_def Let_def max_def)
qed

lemma block_div_mod:
  fixes k :: int
  assumes "0 \<le> k" "k < c"
  shows "(k + a * c) div c = a" "(k + a * c) mod c = k"
  using assms by simp_all

lemma two_pow_23: "(2::int) ^ 23 = 8388608"
  by simp

lemma f_absval_pattern:
  assumes "0 \<le> E" "E \<le> 252" "2 ^ 23 \<le> r" "r \<le> 2 ^ 24"
  defines "w \<equiv> mk_float False (E * 2 ^ 23 + r)"
  shows "f_absval w = of_int r * 2 powi (E - 149)"
    and "\<not> f_sign w" and "\<not> IsNan w" and "\<not> f_isinf w" and "f_mag w \<noteq> 0"
proof -
  have "E * 2 ^ 23 \<le> 252 * 2 ^ 23" using assms(2) by simp
  with assms have p: "0 \<le> E * 2 ^ 23 + r" "E * 2 ^ 23 + r < 2139095040" by simp_all
  then have m: "f_mag w = E * 2 ^ 23 + r" and s: "\<not> f_sign w"
    using mk_float_pos[of "E * 2 ^ 23 + r"] by (simp_all add: w_def)
  show "\<not> f_sign w" by (rule s)
  show "\<not> IsNan w" "\<not> f_isinf w" "f_mag w \<noteq> 0"
    using p assms(1,3) by (simp_all add: IsNan_def f_isinf_def m)
  show "f_absval w = of_int r * 2 powi (E - 149)"
  proof (cases "r = 2 ^ 24")
    case True
    have "f_mag w = (E + 2) * 8388608" by (simp add: m True)
    then have "f_mag w div 2 ^ 23 = E + 2" "f_mag w mod 2 ^ 23 = 0" by simp_all
    moreover have "(2::rat) powi (E - 148) = 2 powi (E - 149) * 2"
      using power_int_add[of "2::rat" "E - 149" 1] by simp
    ultimately show ?thesis using assms(1) by (simp add: f_absval_def Let_def True)
  next
    case False
    define k where "k = r - 8388608"
    from False assms(3,4) have kb: "0 \<le> k" "k < 8388608" by (simp_all add: k_def)
    have "f_mag w = k + (E + 1) * 8388608" by (simp add: m k_def)
    then have "f_mag w div 2 ^ 23 = E + 1" "f_mag w mod 2 ^ 23 = k"
      using block_div_mod[OF kb, of "E + 1"] by (simp_all only: two_pow_23)
    then show ?thesis using assms(1) by (simp add: f_absval_def Let_def k_def)
  qed
qed

lemma round_val:
  assumes "0 < x" "- 126 \<le> flog2 x" "flog2 x \<le> 126"
  defines "w \<equiv> mk_float False (round_mag x)"
  shows "f_absval w = of_int (rne (x * 2 powi (23 - flog2 x))) * 2 powi (flog2 x - 23)"
    and "\<not> f_sign w" and "\<not> IsNan w" and "\<not> f_isinf w" and "f_mag w \<noteq> 0"
proof -
  note r = scaled_significand[OF assms(1)]
  have E: "0 \<le> flog2 x + 126" "flog2 x + 126 \<le> 252" using assms(2,3) by simp_all
  have w: "w = mk_float False ((flog2 x + 126) * 2 ^ 23 + rne (x * 2 powi (23 - flog2 x)))"
    by (simp only: w_def round_mag_normal[OF assms(1-3)])
  from f_absval_pattern[OF E r]
  show "f_absval w = of_int (rne (x * 2 powi (23 - flog2 x))) * 2 powi (flog2 x - 23)"
    and "\<not> f_sign w" and "\<not> IsNan w" and "\<not> f_isinf w" and "f_mag w \<noteq> 0"
    by (simp_all add: w)
qed

text \<open>
  The conversion of an integer below \<open>2\<^sup>2\<^sup>4\<close> is exact, and so is \<open>(float)n - 1.0f\<close>.
\<close>

lemma one_facts:
  "\<not> IsNan 1065353216" "\<not> f_isinf 1065353216" "\<not> f_sign 1065353216"
  "f_absval 1065353216 = 1" "f_mag 1065353216 \<noteq> 0"
  "fneg 1065353216 = 3212836864"
  "\<not> IsNan 3212836864" "\<not> f_isinf 3212836864" "f_val 3212836864 = - 1"
  by code_simp+

lemma zero_facts:
  "\<not> IsNan 0" "\<not> f_isinf 0" "\<not> f_sign 0" "f_absval 0 = 0" "f_mag 0 = 0"
  by (simp_all add: IsNan_def f_isinf_def f_sign_def f_absval_def f_mag_def)

lemma flog2_of_nat:
  assumes "0 < k" "k < 16777216"
  shows "0 \<le> flog2 (of_nat k)" "flog2 (of_nat k) \<le> 23"
proof -
  have "(2::rat) powi 0 \<le> of_nat k" using assms(1) by simp
  then show "0 \<le> flog2 (of_nat k)" by (rule pow2_flog2_ge)
  have "(of_nat k :: rat) < of_nat 16777216" using assms(2) by (simp only: of_nat_less_iff)
  then have "(of_nat k :: rat) < 2 powi 24" by simp
  moreover have "(0::rat) < of_nat k" using assms(1) by simp
  ultimately have "flog2 (of_nat k) < 24" by (intro pow2_flog2_le)
  then show "flog2 (of_nat k) \<le> 23" by simp
qed

lemma u2f_exact:
  assumes "k < 16777216"
  shows "f_absval (u2f k) = of_nat k" and "\<not> f_sign (u2f k)" and "\<not> IsNan (u2f k)"
    and "\<not> f_isinf (u2f k)" and "0 < k \<Longrightarrow> f_mag (u2f k) \<noteq> 0"
proof -
  have "f_absval (u2f k) = of_nat k \<and> \<not> f_sign (u2f k) \<and> \<not> IsNan (u2f k)
        \<and> \<not> f_isinf (u2f k) \<and> (0 < k \<longrightarrow> f_mag (u2f k) \<noteq> 0)"
  proof (cases "k = 0")
    case True
    then show ?thesis by (simp add: u2f_zero zero_facts)
  next
    case False
    define x :: rat where "x = of_nat k"
    define e where "e = flog2 x"
    from False have k: "0 < k" by simp
    then have x: "0 < x" by (simp add: x_def)
    note eb = flog2_of_nat[OF k assms, folded x_def e_def]
    have e: "- 126 \<le> flog2 x" "flog2 x \<le> 126" using eb by (simp_all add: e_def)
    note rv = round_val[OF x e, folded e_def]
    have "x * 2 powi (23 - e) = of_int (int k * 2 ^ nat (23 - e))"
      using eb by (simp add: x_def power_int_def)
    then have "rne (x * 2 powi (23 - e)) = int k * 2 ^ nat (23 - e)"
      by (simp only: rne_of_int)
    then have "f_absval (u2f k) = of_int (int k * 2 ^ nat (23 - e)) * 2 powi (e - 23)"
      using rv(1) by (simp add: u2f_def x_def)
    also have "\<dots> = x * (2 powi (23 - e) * 2 powi (e - 23))"
      using eb by (simp add: x_def power_int_def)
    also have "2 powi (23 - e) * 2 powi (e - 23) = (1::rat)"
      by (simp flip: power_int_add)
    finally have "f_absval (u2f k) = of_nat k" by (simp add: x_def)
    with rv(2-5) show ?thesis by (simp add: u2f_def x_def)
  qed
  then show "f_absval (u2f k) = of_nat k" and "\<not> f_sign (u2f k)" and "\<not> IsNan (u2f k)"
    and "\<not> f_isinf (u2f k)" and "0 < k \<Longrightarrow> f_mag (u2f k) \<noteq> 0"
    by simp_all
qed

lemma fadd_finite:
  assumes "\<not> IsNan a" "\<not> IsNan b" "\<not> f_isinf a" "\<not> f_isinf b"
    and "f_val a + f_val b = r" "0 < r"
  shows "fadd a b = mk_float False (round_mag r)"
  using assms by (simp add: fadd_def)

lemma fsub_one:
  assumes "2 \<le> n" "n < 16777216"
  shows "fsub (u2f n) (f_lit 1) = u2f (n - 1)"
proof -
  note a = u2f_exact[OF assms(2)]
  have v: "f_val (u2f n) = of_nat n" using a(1,2) by (simp add: f_val_def)
  have "(of_nat n :: rat) + - 1 = of_nat (n - 1)" using assms(1) by (simp add: of_nat_diff)
  then have r: "f_val (u2f n) + f_val 3212836864 = of_nat (n - 1)"
    by (simp only: v one_facts)
  have p: "(0::rat) < of_nat (n - 1)" using assms(1) by simp
  have "fadd (u2f n) 3212836864 = mk_float False (round_mag (of_nat (n - 1)))"
    by (rule fadd_finite[OF a(3) one_facts(7) a(4) one_facts(8) r p])
  then show ?thesis by (simp only: fsub_def f_lit_one one_facts u2f_def)
qed

text \<open>
  The step \<open>1.0f / (float)d\<close> exceeds \<open>1 / d\<close> by the factor \<open>1 + 2\<^sup>-\<^sup>2\<^sup>4\<close> at most, so
  that the value of a row of the standard identity is the rounding of a value between 0
  and \<open>1 + 2\<^sup>-\<^sup>2\<^sup>4\<close>: a pattern between those of \<open>0.0\<close> and \<open>1.0\<close>.
\<close>

lemma round_val_upper:
  assumes "0 < x" "- 126 \<le> flog2 x" "flog2 x \<le> 126"
  shows "f_absval (mk_float False (round_mag x)) \<le> x * (1 + 1 / 2 ^ 24)"
proof -
  define e where "e = flog2 x"
  define z where "z = x * 2 powi (23 - e)"
  define u :: rat where "u = 2 powi (e - 23)"
  have u: "0 < u" by (simp add: u_def)
  have zu: "z * u = x"
  proof -
    have "2 powi (23 - e) * 2 powi (e - 23) = (1::rat)" by (simp flip: power_int_add)
    then show ?thesis by (simp add: z_def u_def mult.assoc)
  qed
  have "u * 2 ^ 23 = 2 powi e"
    using power_int_add[of "2::rat" "e - 23" 23] by (simp add: u_def)
  with flog2_bounds(1)[OF assms(1), folded e_def] have ux: "u * 2 ^ 23 \<le> x" by simp
  have "f_absval (mk_float False (round_mag x)) = of_int (rne z) * u"
    by (simp only: round_val(1)[OF assms] e_def z_def u_def)
  also have "\<dots> \<le> (z + 1 / 2) * u"
    using rne_upper[of z] u by (simp only: mult_le_cancel_right_pos)
  also have "\<dots> = x + u / 2" by (simp add: distrib_right zu)
  also have "\<dots> \<le> x * (1 + 1 / 2 ^ 24)" using ux by (simp add: algebra_simps)
  finally show ?thesis .
qed

lemma stepValue_props:
  assumes "1 \<le> d" "d \<le> 1048576"
  defines "s \<equiv> fdiv (f_lit 1) (u2f d)"
  shows "\<not> IsNan s" and "\<not> f_isinf s" and "\<not> f_sign s"
    and "of_nat d * f_absval s \<le> 1 + 1 / 2 ^ 24"
proof -
  have d: "d < 16777216" "0 < d" using assms by simp_all
  note u = u2f_exact[OF d(1)]
  define x :: rat where "x = 1 / of_nat d"
  have x: "0 < x" using d(2) by (simp add: x_def)
  have "(of_nat d :: rat) \<le> of_nat 1048576" using assms(2) by (simp only: of_nat_le_iff)
  then have "1 / of_nat 1048576 \<le> x" unfolding x_def using d(2)
    by (intro divide_left_mono) simp_all
  then have "2 powi (- 20) \<le> x" by (simp add: power_int_minus)
  then have lo: "- 20 \<le> flog2 x" by (rule pow2_flog2_ge)
  have "(of_nat 1 :: rat) \<le> of_nat d" using assms(1) by (simp only: of_nat_le_iff)
  then have "x \<le> 1" using d(2) by (simp add: x_def)
  then have "x < 2 powi 1" by simp
  with x have "flog2 x < 1" by (intro pow2_flog2_le)
  with lo have e: "- 126 \<le> flog2 x" "flog2 x \<le> 126" by simp_all
  have s: "s = mk_float False (round_mag x)"
    using u(3,4) u(5)[OF d(2)] u(1,2)
    by (simp add: s_def fdiv_def f_lit_one one_facts x_def)
  note rv = round_val(2-4)[OF x e, folded s]
  show "\<not> IsNan s" and "\<not> f_isinf s" and "\<not> f_sign s" using rv by simp_all
  have "f_absval s \<le> x * (1 + 1 / 2 ^ 24)"
    unfolding s by (rule round_val_upper[OF x e])
  moreover have "(0::rat) < of_nat d" using d(2) by simp
  ultimately have "of_nat d * f_absval s \<le> of_nat d * (x * (1 + 1 / 2 ^ 24))"
    by (simp only: mult_le_cancel_left_pos)
  also have "\<dots> = 1 + 1 / 2 ^ 24" using d(2) by (simp add: x_def)
  finally show "of_nat d * f_absval s \<le> 1 + 1 / 2 ^ 24" .
qed

lemma f_absval_nonneg: "0 \<le> f_absval w"
proof -
  define m where "m = f_mag w mod 2 ^ 23"
  define e where "e = f_mag w div 2 ^ 23"
  have "f_absval w = (if e = 0 then of_int m * 2 powi (- 149)
                      else of_int (2 ^ 23 + m) * 2 powi (e - 150))"
    by (simp add: f_absval_def Let_def m_def e_def)
  moreover have "0 \<le> m" by (simp add: m_def)
  ultimately show ?thesis by simp
qed

lemma round_mag_unit:
  assumes "0 \<le> y" "y \<le> 1 + 1 / 2 ^ 24"
  shows "0 \<le> round_mag y" "round_mag y \<le> 1065353216"
proof -
  have "0 \<le> round_mag y \<and> round_mag y \<le> 1065353216"
  proof (cases "y = 0")
    case True
    then show ?thesis by (simp add: round_mag_def)
  next
    case False
    with assms(1) have y: "0 < y" by simp
    define e where "e = flog2 y"
    note b = flog2_bounds[OF y, folded e_def]
    from assms(2) have "y < 2 powi 1" by simp
    with y have e0: "e \<le> 0" unfolding e_def using pow2_flog2_le[of y 1] by simp
    show ?thesis
    proof (cases "e = 0")
      case True
      define z where "z = y * 2 powi 23"
      from b(1) True have "1 \<le> y" by simp
      with assms(2) have z: "8388608 \<le> z" "z \<le> 8388608 + 1 / 2" by (simp_all add: z_def)
      then have fl: "\<lfloor>z\<rfloor> = 8388608" by (intro floor_unique) simp_all
      have "rne z = 8388608" using z by (simp add: rne_def fl Let_def)
      then show ?thesis using y True by (simp add: round_mag_def e_def[symmetric] z_def)
    next
      case False
      define e' where "e' = max e (- 126)"
      from False e0 have e': "- 126 \<le> e'" "e' \<le> - 1" "e \<le> e'" by (simp_all add: e'_def)
      define z where "z = y * 2 powi (23 - e')"
      have s: "(0::rat) < 2 powi (23 - e')" by simp
      have "(2::rat) powi (e + 1) \<le> 2 powi (e' + 1)"
        using e'(3) by (intro power_int_increasing) simp_all
      with b(2) have "y < 2 powi (e' + 1)" by linarith
      then have "z < 2 powi (e' + 1) * 2 powi (23 - e')"
        unfolding z_def using s by (simp only: mult_less_cancel_right_pos)
      moreover have "(2::rat) powi (e' + 1) * 2 powi (23 - e') = 2 powi 24"
        by (simp flip: power_int_add)
      ultimately have "z \<le> of_int (2 ^ 24)" by simp
      then have r1: "rne z \<le> 2 ^ 24" by (rule rne_le_int)
      have "of_int 0 \<le> z" using y s by (simp add: z_def)
      then have r0: "0 \<le> rne z" by (rule rne_ge_int)
      have E: "0 \<le> (e' + 126) * 2 ^ 23" "(e' + 126) * 2 ^ 23 \<le> 125 * 2 ^ 23"
        using e'(1,2) by simp_all
      have rm: "round_mag y =
          (let p = (e' + 126) * 2 ^ 23 + rne z in if 2139095040 \<le> p then 2139095040 else p)"
        using y by (simp add: round_mag_def e_def e'_def z_def Let_def)
      show ?thesis using r0 r1 E by (simp add: rm Let_def)
    qed
  qed
  then show "0 \<le> round_mag y" "round_mag y \<le> 1065353216" by simp_all
qed

lemma fill_standard_value:
  assumes "2 \<le> n" "n \<le> 1048576" "i < n"
  defines "v \<equiv> fmul (u2f i) (fdiv (f_lit 1) (fsub (u2f n) (f_lit 1)))"
  shows "\<not> f_sign v" and "f_mag v \<le> 1065353216"
proof -
  define d where "d = n - 1"
  define s where "s = fdiv (f_lit 1) (u2f d)"
  have d: "1 \<le> d" "d \<le> 1048576" "i \<le> d" using assms(1-3) by (simp_all add: d_def)
  have n: "n < 16777216" "i < 16777216" using assms(2,3) by simp_all
  note sp = stepValue_props[OF d(1,2), folded s_def]
  note ui = u2f_exact[OF n(2)]
  have v: "v = fmul (u2f i) s"
    by (simp only: v_def s_def d_def fsub_one[OF assms(1) n(1)])
  define y where "y = of_nat i * f_absval s"
  have s0: "0 \<le> f_absval s" by (rule f_absval_nonneg)
  then have y0: "0 \<le> y" by (simp add: y_def)
  have "(of_nat i :: rat) \<le> of_nat d" using d(3) by (simp only: of_nat_le_iff)
  then have "y \<le> of_nat d * f_absval s" unfolding y_def using s0
    by (intro mult_right_mono)
  with sp(4) have y1: "y \<le> 1 + 1 / 2 ^ 24" by linarith
  note rm = round_mag_unit[OF y0 y1]
  have "v = mk_float False (round_mag y)"
    using sp(1-3) ui(1-4) by (simp add: v fmul_def y_def)
  with mk_float_pos[of "round_mag y"] rm
  show "\<not> f_sign v" and "f_mag v \<le> 1065353216" by simp_all
qed

lemma hasExtendedRange_loop_iff:
  "hasExtendedRange_loop vs \<longleftrightarrow>
     (\<exists>v\<in>set vs. \<not> IsNan v \<and> (flt_lt v normalMin \<or> flt_gt v normalMax))"
  by (induction vs) auto

lemma unit_range_not_extended:
  assumes "\<not> f_sign v" "f_mag v \<le> 1065353216"
  shows "\<not> flt_lt v normalMin" "\<not> flt_gt v normalMax"
proof -
  have k: "f_key normalMin = - 925353388" "f_key normalMax = 1065353300"
    by (simp_all add: normalMin_pattern normalMax_pattern f_key_def f_sign_def f_mag_def)
  have "0 \<le> f_mag v" by (simp add: f_mag_def)
  with assms have "0 \<le> f_key v" "f_key v \<le> 1065353216" by (simp_all add: f_key_def)
  then show "\<not> flt_lt v normalMin" "\<not> flt_gt v normalMax"
    by (simp_all add: flt_lt_def flt_gt_def k)
qed

lemma Lut1DOpData_new_array:
  assumes "Lut3by1DArray_new hf n = Inr arr"
  shows "\<exists>l. Lut1DOpData_new E hf n = Inr l \<and> m_array l = arr"
  using assms by (simp add: Lut1DOpData_new_def)

lemma standard_identity_not_extended:
  assumes "2 \<le> n" "n \<le> 1048576"
  shows "\<exists>l. Lut1DOpData_new E LUT_STANDARD n = Inr l \<and> \<not> hasExtendedRange l"
proof -
  obtain arr where arr: "Lut3by1DArray_new LUT_STANDARD n = Inr arr"
    using assms by (simp add: Lut3by1DArray_new_cases)
  note sh = new_array_shape[OF arr]
  have std: "\<not> IsInputHalfDomain LUT_STANDARD"
    by (simp add: IsInputHalfDomain_def LUT_STANDARD_def LUT_INPUT_HALF_CODE_def)
  have "\<not> flt_lt v normalMin \<and> \<not> flt_gt v normalMax" if "v \<in> set (m_data arr)" for v
  proof -
    from that obtain j where j: "j < n * 3" "v = m_data arr ! j"
      by (auto simp: in_set_conv_nth sh(3))
    define i where "i = j div 3"
    define c where "c = j mod 3"
    have ic: "i < n" "c < 3" "j = 3 * i + c" using j(1) by (simp_all add: i_def c_def)
    have "v = fmul (u2f i) (fdiv (f_lit 1) (fsub (u2f n) (f_lit 1)))"
      using new_array_values[OF arr ic(1,2)] std by (simp add: j(2) ic(3))
    with fill_standard_value[OF assms ic(1)] show ?thesis
      by (simp add: unit_range_not_extended)
  qed
  then have "\<not> hasExtendedRange_loop (m_data arr)"
    by (simp add: hasExtendedRange_loop_iff)
  with Lut1DOpData_new_array[OF arr, of E] show ?thesis
    by (auto simp: hasExtendedRange_def)
qed

lemma half_identity_extended:
  "\<exists>l. Lut1DOpData_new E LUT_INPUT_HALF_CODE 65536 = Inr l \<and> hasExtendedRange l
       \<and> m_data (m_array l) ! (3 * 16384 + 0) = f_two"
proof -
  obtain arr where arr: "Lut3by1DArray_new LUT_INPUT_HALF_CODE 65536 = Inr arr"
    by (simp add: Lut3by1DArray_new_cases)
  note sh = new_array_shape[OF arr]
  have hd: "IsInputHalfDomain LUT_INPUT_HALF_CODE"
    by (simp add: IsInputHalfDomain_def LUT_INPUT_HALF_CODE_def)
  have two: "half_to_float 16384 = 1073741824" by code_simp
  have v: "m_data arr ! (3 * 16384 + 0) = 1073741824"
    using new_array_values[OF arr, of 16384 0] hd by (simp add: two)
  have "m_data arr ! (3 * 16384 + 0) \<in> set (m_data arr)"
    by (rule nth_mem) (simp add: sh(3))
  then have m: "1073741824 \<in> set (m_data arr)" by (simp only: v)
  have "\<not> IsNan 1073741824 \<and> flt_gt 1073741824 normalMax"
    by (simp add: normalMax_pattern flt_gt_def flt_lt_def IsNan_def f_key_def f_sign_def
        f_mag_def)
  with m have "hasExtendedRange_loop (m_data arr)"
    unfolding hasExtendedRange_loop_iff by blast
  with Lut1DOpData_new_array[OF arr, of E] v show ?thesis
    by (auto simp: hasExtendedRange_def f_two_def)
qed

text \<open>
  C2, as amended.  \<open>hasExtendedRange\<close> is false for every freshly constructed
  standard-domain identity LUT, of any valid length \<open>n\<close>; for the freshly constructed
  half-domain identity LUT of 65,536 rows it is true.
\<close>

theorem fresh_identity_hasExtendedRange:
  "(2 \<le> n \<and> n \<le> 1048576 \<longrightarrow>
      (\<exists>l. Lut1DOpData_new E LUT_STANDARD n = Inr l \<and> \<not> hasExtendedRange l))
   \<and> (\<exists>l. Lut1DOpData_new E LUT_INPUT_HALF_CODE 65536 = Inr l \<and> hasExtendedRange l)"
  using standard_identity_not_extended[of n E] half_identity_extended[of E] by blast

theorem fresh_identity_hasExtendedRange_witness:
  "(2::nat) \<le> 2 \<and> (2::nat) \<le> 1048576
   \<and> (\<exists>l. Lut1DOpData_new env0 LUT_STANDARD 2 = Inr l \<and> \<not> hasExtendedRange l)
   \<and> (\<exists>l. Lut1DOpData_new env0 LUT_INPUT_HALF_CODE 65536 = Inr l \<and> hasExtendedRange l)"
  using fresh_identity_hasExtendedRange[of 2 env0] by simp

text \<open>
  C2, as stated, fails on the half-domain identity: the construction succeeds, row 16384
  of the new LUT holds the float of the half with bits 16384, which is \<open>2.0\<close>, not a NaN
  and above \<open>1.0 + 1e-5\<close>, and \<open>hasExtendedRange\<close> is true.
\<close>

theorem half_identity_hasExtendedRange:
  "\<not> isl (Lut1DOpData_new env0 LUT_INPUT_HALF_CODE 65536)
   \<and> m_data (m_array (projr (Lut1DOpData_new env0 LUT_INPUT_HALF_CODE 65536)))
        ! (3 * 16384 + 0) = f_two
   \<and> hasExtendedRange (projr (Lut1DOpData_new env0 LUT_INPUT_HALF_CODE 65536))"
  using half_identity_extended[of env0] by auto

section \<open>Finalization and the cache id\<close>

lemma prepareArray_fields [simp]:
  "m_direction (prepareArray lut) = m_direction lut"
  "m_interpolation (prepareArray lut) = m_interpolation lut"
  "m_halfFlags (prepareArray lut) = m_halfFlags lut"
  "m_hueAdjust (prepareArray lut) = m_hueAdjust lut"
  "m_length (m_array (prepareArray lut)) = m_length (m_array lut)"
  "m_numColorComponents (m_array (prepareArray lut)) = m_numColorComponents (m_array lut)"
  by (simp_all add: prepareArray_def Let_def)

lemma adjust_fields [simp]:
  "m_length (adjustColorComponentNumber a) = m_length a"
  "m_data (adjustColorComponentNumber a) = m_data a"
  by (simp_all add: adjustColorComponentNumber_def)

lemma finalize_prepare_fields [simp]:
  "m_direction (finalize_prepare lut) = m_direction lut"
  "m_interpolation (finalize_prepare lut) = m_interpolation lut"
  "m_halfFlags (finalize_prepare lut) = m_halfFlags lut"
  "m_hueAdjust (finalize_prepare lut) = m_hueAdjust lut"
  "m_length (m_array (finalize_prepare lut)) = m_length (m_array lut)"
  by (simp_all add: finalize_prepare_def Let_def initializeFromForward_def)

lemma prepareArray_upd:
  "prepareArray (lut\<lparr>m_interpolation := i\<rparr>) = (prepareArray lut)\<lparr>m_interpolation := i\<rparr>"
  "prepareArray (lut\<lparr>m_invQuality := q\<rparr>) = (prepareArray lut)\<lparr>m_invQuality := q\<rparr>"
  by (simp_all add: prepareArray_def Let_def isInputHalfDomain_def)

lemma finalize_prepare_upd:
  "finalize_prepare (lut\<lparr>m_interpolation := i\<rparr>) = (finalize_prepare lut)\<lparr>m_interpolation := i\<rparr>"
  "finalize_prepare (lut\<lparr>m_invQuality := q\<rparr>) = (finalize_prepare lut)\<lparr>m_invQuality := q\<rparr>"
  by (simp_all add: finalize_prepare_def Let_def initializeFromForward_def prepareArray_upd)

lemma validate_upd:
  "validate E (lut\<lparr>m_invQuality := q\<rparr>) = validate E lut"
  "IsValid i \<Longrightarrow> IsValid (m_interpolation lut) \<Longrightarrow>
     validate E (lut\<lparr>m_interpolation := i\<rparr>) = validate E lut"
  by (auto simp: validate_def OpData_validate_def isInputHalfDomain_def split: option.split)

lemma finalize_Inr_iff:
  "finalize E lut = Inr lut' \<longleftrightarrow>
     validate E (finalize_prepare lut) = Inr () \<and>
     lut' = (finalize_prepare lut)\<lparr>m_cacheID :=
             CacheIDHash E (m_data (m_array (finalize_prepare lut))) @ '' ''
             @ TransformDirectionToString E (m_direction lut) @ '' ''
             @ InterpolationToString E (m_interpolation lut) @ '' ''
             @ (if IsInputHalfDomain (m_halfFlags lut) then ''half domain ''
                else ''standard domain '')
             @ GetHueAdjustName (m_hueAdjust lut)\<rparr>"
  by (cases "validate E (finalize_prepare lut)")
     (auto simp: finalize_def Let_def isInputHalfDomain_def)

lemma finalize_Inr_D:
  assumes "finalize E lut = Inr lut'"
  shows "m_direction lut' = m_direction lut"
    and "m_interpolation lut' = m_interpolation lut"
    and "m_halfFlags lut' = m_halfFlags lut"
    and "m_hueAdjust lut' = m_hueAdjust lut"
    and "m_cacheID lut' =
           CacheIDHash E (m_data (m_array lut')) @ '' ''
           @ TransformDirectionToString E (m_direction lut) @ '' ''
           @ InterpolationToString E (m_interpolation lut) @ '' ''
           @ (if IsInputHalfDomain (m_halfFlags lut) then ''half domain ''
              else ''standard domain '')
           @ GetHueAdjustName (m_hueAdjust lut)"
    and "m_array lut' = m_array (finalize_prepare lut)"
  using assms unfolding finalize_Inr_iff by simp_all

lemma takeWhile_upto_separator:
  "c \<notin> set xs \<Longrightarrow> takeWhile (\<lambda>x. x \<noteq> c) (xs @ c # us) = xs"
  by (induction xs) auto

lemma split_at_separator:
  assumes "c \<notin> set xs" "c \<notin> set ys" "xs @ c # us = ys @ c # vs"
  shows "xs = ys \<and> us = vs"
proof -
  have "takeWhile (\<lambda>x. x \<noteq> c) (xs @ c # us) = xs"
    using assms(1) by (rule takeWhile_upto_separator)
  moreover have "takeWhile (\<lambda>x. x \<noteq> c) (ys @ c # vs) = ys"
    using assms(2) by (rule takeWhile_upto_separator)
  ultimately have "xs = ys" using assms(3) by simp
  with assms(3) show ?thesis by simp
qed

lemma domain_hue_suffix_inj:
  "(if h1 then ''half domain '' else ''standard domain '') @ GetHueAdjustName u1 =
   (if h2 then ''half domain '' else ''standard domain '') @ GetHueAdjustName u2
   \<Longrightarrow> h1 = h2 \<and> u1 = u2"
  by (cases u1; cases u2; cases h1; cases h2) simp_all

text \<open>
  C6.  After a successful \<open>finalize\<close> the cache id is the printable hash of the MD5
  digest of the values, then the direction name, the interpolation name, "half domain"
  or "standard domain", and the hue-adjust name, separated by single spaces.  The
  inversion quality is not part of it: with any other inversion quality \<open>finalize\<close>
  succeeds with the same cache id.  When the names of the directions and of the
  interpolations contain no space and differ from one value to the next, two finalized
  LUTs with the same values that differ in direction, interpolation, input-half-domain
  flag or hue adjust have different cache ids.
\<close>

theorem finalize_cacheID:
  assumes "finalize E a = Inr a'" and "finalize E b = Inr b'"
    and "\<forall>d. CHR '' '' \<notin> set (TransformDirectionToString E d)"
    and "inj (TransformDirectionToString E)"
    and "\<forall>i. CHR '' '' \<notin> set (InterpolationToString E i)"
    and "inj (InterpolationToString E)"
  shows
    "m_cacheID a' =
       CacheIDHash E (m_data (m_array a')) @ '' ''
       @ TransformDirectionToString E (m_direction a') @ '' ''
       @ InterpolationToString E (m_interpolation a') @ '' ''
       @ (if IsInputHalfDomain (m_halfFlags a') then ''half domain '' else ''standard domain '')
       @ GetHueAdjustName (m_hueAdjust a')
     \<and> (\<exists>r. finalize E (a\<lparr>m_invQuality := q\<rparr>) = Inr r \<and> m_cacheID r = m_cacheID a')
     \<and> (m_data (m_array a') = m_data (m_array b')
          \<and> (m_direction a' \<noteq> m_direction b' \<or> m_interpolation a' \<noteq> m_interpolation b'
              \<or> IsInputHalfDomain (m_halfFlags a') \<noteq> IsInputHalfDomain (m_halfFlags b')
              \<or> m_hueAdjust a' \<noteq> m_hueAdjust b')
         \<longrightarrow> m_cacheID a' \<noteq> m_cacheID b')"
proof (intro conjI impI)
  note A = finalize_Inr_D[OF assms(1)] and B = finalize_Inr_D[OF assms(2)]
  show "m_cacheID a' =
       CacheIDHash E (m_data (m_array a')) @ '' ''
       @ TransformDirectionToString E (m_direction a') @ '' ''
       @ InterpolationToString E (m_interpolation a') @ '' ''
       @ (if IsInputHalfDomain (m_halfFlags a') then ''half domain '' else ''standard domain '')
       @ GetHueAdjustName (m_hueAdjust a')"
    by (simp only: A)
  show "\<exists>r. finalize E (a\<lparr>m_invQuality := q\<rparr>) = Inr r \<and> m_cacheID r = m_cacheID a'"
    using assms(1) unfolding finalize_Inr_iff
    by (simp add: finalize_prepare_upd validate_upd)
  assume h: "m_data (m_array a') = m_data (m_array b')
          \<and> (m_direction a' \<noteq> m_direction b' \<or> m_interpolation a' \<noteq> m_interpolation b'
              \<or> IsInputHalfDomain (m_halfFlags a') \<noteq> IsInputHalfDomain (m_halfFlags b')
              \<or> m_hueAdjust a' \<noteq> m_hueAdjust b')"
  show "m_cacheID a' \<noteq> m_cacheID b'"
  proof
    assume eq: "m_cacheID a' = m_cacheID b'"
    let ?sa = "(if IsInputHalfDomain (m_halfFlags a) then ''half domain '' else ''standard domain '')
       @ GetHueAdjustName (m_hueAdjust a)"
    let ?sb = "(if IsInputHalfDomain (m_halfFlags b) then ''half domain '' else ''standard domain '')
       @ GetHueAdjustName (m_hueAdjust b)"
    from eq h have e1: "TransformDirectionToString E (m_direction a) @ CHR '' '' #
         (InterpolationToString E (m_interpolation a) @ '' '' @ ?sa) =
       TransformDirectionToString E (m_direction b) @ CHR '' '' #
         (InterpolationToString E (m_interpolation b) @ '' '' @ ?sb)"
      by (simp add: A(5) B(5))
    from split_at_separator[OF _ _ e1] assms(3)
    have d: "TransformDirectionToString E (m_direction a) = TransformDirectionToString E (m_direction b)"
      and e2: "InterpolationToString E (m_interpolation a) @ CHR '' '' # ?sa =
               InterpolationToString E (m_interpolation b) @ CHR '' '' # ?sb"
      by auto
    from split_at_separator[OF _ _ e2] assms(5)
    have i: "InterpolationToString E (m_interpolation a) = InterpolationToString E (m_interpolation b)"
      and e3: "?sa = ?sb"
      by auto
    from d assms(4) have "m_direction a = m_direction b" by (simp add: inj_eq)
    moreover from i assms(6) have "m_interpolation a = m_interpolation b" by (simp add: inj_eq)
    moreover from domain_hue_suffix_inj[OF e3]
    have "IsInputHalfDomain (m_halfFlags a) = IsInputHalfDomain (m_halfFlags b)"
      "m_hueAdjust a = m_hueAdjust b" by simp_all
    ultimately show False using h by (simp add: A B)
  qed
qed


lemma env0_names:
  "\<forall>d. CHR '' '' \<notin> set (TransformDirectionToString env0 d)"
  "inj (TransformDirectionToString env0)"
  "\<forall>i. CHR '' '' \<notin> set (InterpolationToString env0 i)"
  "inj (InterpolationToString env0)"
proof -
  show "\<forall>d. CHR '' '' \<notin> set (TransformDirectionToString env0 d)"
    by (simp add: env0_def split: TransformDirection.split)
  show "inj (TransformDirectionToString env0)"
    by (auto simp: inj_def env0_def split: TransformDirection.splits)
  show "\<forall>i. CHR '' '' \<notin> set (InterpolationToString env0 i)"
    by (simp add: env0_def split: Interpolation.split)
  show "inj (InterpolationToString env0)"
    unfolding inj_def
  proof (intro allI impI)
    fix x y assume "InterpolationToString env0 x = InterpolationToString env0 y"
    then show "x = y" by (cases x; cases y) (simp_all add: env0_def)
  qed
qed

lemma env0_interp_names:
  "InterpolationToString env0 INTERP_LINEAR = ''linear''"
  "InterpolationToString env0 INTERP_NEAREST = ''nearest''"
  by (simp_all add: env0_def)

lemma f_key_small [simp]: "f_key f_zero = 0" "f_key f_one = 1065353216"
  "f_key f_two = 1073741824" "f_key f_three = 1077936128"
  "\<not> IsNan f_zero" "\<not> IsNan f_one" "\<not> IsNan f_two" "\<not> IsNan f_three"
  by (simp_all add: f_key_def f_mag_def f_sign_def IsNan_def f_zero_def f_one_def f_two_def
      f_three_def)

lemma env0_fields:
  "Array_validate env0 a =
     (if m_length a = 0 then Some ''Array content is empty.''
      else if length (m_data a) \<noteq> m_length a * 3
      then Some ''Array content does not have the expected number of values.''
      else None)"
  "CacheIDHash env0 vs = CHR ''$'' # replicate (length vs) CHR ''f''"
  "TransformDirectionToString env0 TRANSFORM_DIR_FORWARD = ''forward''"
  "TransformDirectionToString env0 TRANSFORM_DIR_INVERSE = ''inverse''"
  by (simp_all add: env0_def)

lemma finalize_prepare_lut_id2:
  "finalize_prepare (lut_id2\<lparr>m_interpolation := i, m_hueAdjust := h\<rparr>) =
     lut_id2\<lparr>m_interpolation := i, m_hueAdjust := h,
            m_array := (m_array lut_id2)\<lparr>m_numColorComponents := 1\<rparr>\<rparr>"
  by (simp add: finalize_prepare_def Let_def lut_id2_def lut_of_def
      adjustColorComponentNumber_def getMaxColorComponents_def flt_eq_def upt_rec)

lemma finalize_lut_id2:
  "IsValid i \<Longrightarrow>
   finalize env0 (lut_id2\<lparr>m_interpolation := i, m_hueAdjust := h\<rparr>) =
     Inr (lut_id2\<lparr>m_interpolation := i, m_hueAdjust := h,
            m_array := (m_array lut_id2)\<lparr>m_numColorComponents := 1\<rparr>,
            m_cacheID := ''$ffffff forward '' @ InterpolationToString env0 i
               @ '' standard domain '' @ GetHueAdjustName h\<rparr>)"
  unfolding finalize_Inr_iff finalize_prepare_lut_id2
  by (simp add: lut_id2_def lut_of_def validate_def OpData_validate_def isInputHalfDomain_def
      IsInputHalfDomain_def LUT_STANDARD_def LUT_INPUT_HALF_CODE_def env0_fields
      eval_nat_numeral)

theorem finalize_cacheID_witness:
  "\<exists>a' b'. finalize env0 (lut_id2\<lparr>m_interpolation := INTERP_LINEAR, m_hueAdjust := HUE_NONE\<rparr>)
              = Inr a'
     \<and> finalize env0 (lut_id2\<lparr>m_interpolation := INTERP_LINEAR, m_hueAdjust := HUE_DW3\<rparr>)
              = Inr b'
     \<and> m_data (m_array a') = m_data (m_array b')
     \<and> m_hueAdjust a' \<noteq> m_hueAdjust b'
     \<and> m_cacheID a' = ''$ffffff forward linear standard domain none''
     \<and> m_cacheID a' \<noteq> m_cacheID b'"
proof -
  let ?a = "lut_id2\<lparr>m_interpolation := INTERP_LINEAR, m_hueAdjust := HUE_NONE\<rparr>"
  let ?b = "lut_id2\<lparr>m_interpolation := INTERP_LINEAR, m_hueAdjust := HUE_DW3\<rparr>"
  obtain a' where a': "finalize env0 ?a = Inr a'" "m_data (m_array a') = m_data (m_array lut_id2)"
    "m_hueAdjust a' = HUE_NONE"
    "m_cacheID a' = ''$ffffff forward linear standard domain none''"
    by (simp add: finalize_lut_id2 env0_interp_names)
  obtain b' where b': "finalize env0 ?b = Inr b'" "m_data (m_array b') = m_data (m_array lut_id2)"
    "m_hueAdjust b' = HUE_DW3"
    by (simp add: finalize_lut_id2)
  have "m_data (m_array a') = m_data (m_array b')
          \<and> (m_direction a' \<noteq> m_direction b' \<or> m_interpolation a' \<noteq> m_interpolation b'
              \<or> IsInputHalfDomain (m_halfFlags a') \<noteq> IsInputHalfDomain (m_halfFlags b')
              \<or> m_hueAdjust a' \<noteq> m_hueAdjust b')"
    by (simp add: a'(2,3) b'(2,3))
  with finalize_cacheID[OF a'(1) b'(1) env0_names, of undefined]
  have "m_cacheID a' \<noteq> m_cacheID b'" by blast
  with a' b' show ?thesis by auto
qed

text \<open>
  C10.  Equality does not determine the cache id.  Take a LUT that stores LINEAR
  interpolation and finalizes, with no NaN among its values, and the same LUT storing
  NEAREST: it finalizes too, to a LUT that differs from the first in the stored
  interpolation and the cache id only; \<open>equals\<close>, which compares the concrete
  interpolation (always LINEAR), holds between the two, and their cache ids differ as
  soon as the names of NEAREST and LINEAR do.
\<close>

theorem equals_does_not_determine_cacheID:
  assumes "finalize E a = Inr a'"
    and "m_interpolation a = INTERP_LINEAR"
    and "\<forall>v \<in> set (m_data (m_array a')). \<not> IsNan v"
    and "InterpolationToString E INTERP_NEAREST \<noteq> InterpolationToString E INTERP_LINEAR"
  shows "\<exists>b'. finalize E (a\<lparr>m_interpolation := INTERP_NEAREST\<rparr>) = Inr b'
          \<and> b' = a'\<lparr>m_interpolation := INTERP_NEAREST, m_cacheID := m_cacheID b'\<rparr>
          \<and> m_interpolation a' = INTERP_LINEAR
          \<and> equals a' b'
          \<and> m_cacheID a' \<noteq> m_cacheID b'"
proof -
  let ?b = "a\<lparr>m_interpolation := INTERP_NEAREST\<rparr>"
  from assms(1) have v: "validate E (finalize_prepare a) = Inr ()"
    unfolding finalize_Inr_iff by simp
  then have "IsValid (m_interpolation (finalize_prepare a))"
    by (auto simp: validate_def OpData_validate_def split: if_splits)
  with v have v': "validate E (finalize_prepare ?b) = Inr ()"
    by (simp add: finalize_prepare_upd validate_upd)
  then obtain b' where b': "finalize E ?b = Inr b'"
    unfolding finalize_Inr_iff by simp
  have rel: "b' = a'\<lparr>m_interpolation := INTERP_NEAREST, m_cacheID := m_cacheID b'\<rparr>"
    using assms(1) b' unfolding finalize_Inr_iff by (simp add: finalize_prepare_upd)
  note A = finalize_Inr_D[OF assms(1)] and B = finalize_Inr_D[OF b']
  have arr: "m_array b' = m_array a'" "m_halfFlags b' = m_halfFlags a'"
    "m_hueAdjust b' = m_hueAdjust a'" "m_direction b' = m_direction a'"
    by (subst rel, simp)+
  have refl: "list_all2 flt_eq (m_data (m_array a')) (m_data (m_array a'))"
    using assms(3) by (simp add: list_all2_conv_all_nth flt_eq_def)
  have eq: "equals a' b'"
    by (simp add: equals_def OpData_equals_def getConcreteInterpolation_def
        haveEqualBasics_def Array_equals_def arr refl)
  have ne: "m_cacheID a' \<noteq> m_cacheID b'"
    using assms(4) by (simp add: A(5) B(5) assms(2) arr A(1,3,4))
  from b' rel eq ne A(2) assms(2) show ?thesis by auto
qed

theorem equals_does_not_determine_cacheID_witness:
  "\<exists>a' b'. finalize env0 (lut_id2\<lparr>m_interpolation := INTERP_LINEAR, m_hueAdjust := HUE_NONE\<rparr>)
               = Inr a'
       \<and> finalize env0 (lut_id2\<lparr>m_interpolation := INTERP_NEAREST, m_hueAdjust := HUE_NONE\<rparr>)
               = Inr b'
       \<and> equals a' b' \<and> m_cacheID a' \<noteq> m_cacheID b'"
proof -
  let ?a = "lut_id2\<lparr>m_interpolation := INTERP_LINEAR, m_hueAdjust := HUE_NONE\<rparr>"
  obtain a' where a': "finalize env0 ?a = Inr a'" "m_data (m_array a') = m_data (m_array lut_id2)"
    by (simp add: finalize_lut_id2)
  have nn: "\<forall>v \<in> set (m_data (m_array a')). \<not> IsNan v"
    by (simp add: a'(2) lut_id2_def lut_of_def)
  have names: "InterpolationToString env0 INTERP_NEAREST \<noteq> InterpolationToString env0 INTERP_LINEAR"
    by (simp add: env0_interp_names)
  have il: "m_interpolation ?a = INTERP_LINEAR" by simp
  have upd: "?a\<lparr>m_interpolation := INTERP_NEAREST\<rparr> =
      lut_id2\<lparr>m_interpolation := INTERP_NEAREST, m_hueAdjust := HUE_NONE\<rparr>"
    by simp
  from equals_does_not_determine_cacheID[OF a'(1) il nn names, unfolded upd] a'(1)
  show ?thesis by blast
qed

section \<open>The reversal-flattening walks of the preparation\<close>

lemma walked_step:
  "idx < bound \<Longrightarrow> walked idx bound j \<longleftrightarrow> j = idx \<or> walked (idx + 3) bound j"
  unfolding walked_def by presburger

lemma walked_empty: "\<not> idx < bound \<Longrightarrow> \<not> walked idx bound j"
  unfolding walked_def by simp

lemma flatten_le_lt:
  "flatten_le inc endInd idx prev vs = flatten_lt inc (Suc endInd) idx prev vs"
proof (induction inc endInd idx prev vs rule: flatten_le.induct)
  case (1 inc endInd idx prev vs)
  show ?case
  proof (cases "idx \<le> endInd")
    case True
    then have lt: "idx < Suc endInd" by simp
    show ?thesis
      using True "1.IH"
      by (subst flatten_le.simps, subst flatten_lt.simps) (simp add: lt)
  next
    case False
    then show ?thesis
      by (subst flatten_le.simps, subst flatten_lt.simps) simp
  qed
qed

lemma flatten_lt_length [simp]:
  "length (flatten_lt inc bound idx prev vs) = length vs"
proof (induction inc bound idx prev vs rule: flatten_lt.induct)
  case (1 inc bound idx prev vs)
  then show ?case by (subst flatten_lt.simps) simp
qed

lemma flatten_lt_untouched:
  "\<not> walked idx bound j \<Longrightarrow> flatten_lt inc bound idx prev vs ! j = vs ! j"
proof (induction inc bound idx prev vs rule: flatten_lt.induct)
  case (1 inc bound idx prev vs)
  show ?case
  proof (cases "idx < bound")
    case True
    with "1.prems" have ne: "j \<noteq> idx" and nw: "\<not> walked (idx + getMaxColorComponents) bound j"
      by (simp_all add: walked_step getMaxColorComponents_def)
    show ?thesis
      using True "1.IH"(1)[OF True _ nw] "1.IH"(2)[OF True _ nw] ne
      by (subst flatten_lt.simps) (simp add: nth_list_update)
  next
    case False
    then show ?thesis by (subst flatten_lt.simps) simp
  qed
qed

lemma flatten_lt_stop: "\<not> idx < bound \<Longrightarrow> flatten_lt inc bound idx prev vs = vs"
  by (subst flatten_lt.simps) simp

lemma flatten_lt_step:
  "idx < bound \<Longrightarrow>
   flatten_lt inc bound idx prev vs =
     flatten_lt inc bound (idx + 3) (clampStep inc prev (vs ! idx))
       (vs[idx := clampStep inc prev (vs ! idx)])"
  by (subst flatten_lt.simps) (simp add: clampStep_def getMaxColorComponents_def)

lemma flatten_lt_walk_induct [case_names step]:
  assumes "\<And>idx prev vs.
     (idx < bound \<Longrightarrow>
        P (idx + 3) (clampStep inc prev (vs ! idx)) (vs[idx := clampStep inc prev (vs ! idx)]))
     \<Longrightarrow> P idx prev vs"
  shows "P idx prev vs"
proof (induction "bound - idx" arbitrary: idx prev vs rule: less_induct)
  case less
  show ?case
    apply (rule assms)
    apply (rule less)
    apply simp
    done
qed

lemma walked_later:
  "walked (idx + 3) bound k \<Longrightarrow> k \<noteq> idx \<and> walked idx bound k"
  unfolding walked_def by presburger

lemma flatten_lt_at_idx:
  assumes "idx < bound" "idx < length vs"
  shows "flatten_lt inc bound idx prev vs ! idx = clampStep inc prev (vs ! idx)"
proof -
  let ?p = "clampStep inc prev (vs ! idx)"
  have "flatten_lt inc bound idx prev vs ! idx =
          flatten_lt inc bound (idx + 3) ?p (vs[idx := ?p]) ! idx"
    by (simp only: flatten_lt_step[OF assms(1)])
  also have "\<dots> = vs[idx := ?p] ! idx"
    by (rule flatten_lt_untouched) (simp add: walked_def)
  also have "\<dots> = ?p" using assms(2) by simp
  finally show ?thesis .
qed

lemma clampStep_again: "clampStep inc prev (clampStep inc prev v) = clampStep inc prev v"
  by (auto simp: clampStep_def flt_gt_def flt_lt_def)

lemma clampStep_mono:
  assumes "\<not> IsNan prev" "\<not> IsNan v"
  shows "\<not> IsNan (clampStep inc prev v)"
    and "dir_le inc prev (clampStep inc prev v)"
  using assms by (auto simp: clampStep_def flt_gt_def flt_lt_def flt_le_def dir_le_def)

lemma clampStep_above:
  assumes "\<not> IsNan prev" "\<not> IsNan v"
  shows "flt_le v (clampStep True prev v)"
  using assms by (auto simp: clampStep_def flt_gt_def flt_lt_def flt_le_def)

lemma clampStep_True_notNan: "\<not> IsNan prev \<Longrightarrow> \<not> IsNan (clampStep True prev v)"
  by (auto simp: clampStep_def flt_gt_def flt_lt_def)

lemma clampStep_below: "clampStep False prev v = v \<or> flt_lt (clampStep False prev v) v"
  by (auto simp: clampStep_def flt_gt_def flt_lt_def)

lemma dir_le_trans: "dir_le inc a b \<Longrightarrow> dir_le inc b c \<Longrightarrow> dir_le inc a c"
  by (auto simp: dir_le_def flt_le_def)

lemma dir_le_refl: "\<not> IsNan a \<Longrightarrow> dir_le inc a a"
  by (simp add: dir_le_def flt_le_def)

lemma flatten_lt_bounded_by_seed:
  assumes "bound \<le> length vs" "\<not> IsNan prev" "\<forall>j. walked idx bound j \<longrightarrow> \<not> IsNan (vs ! j)"
    and "walked idx bound j"
  shows "\<not> IsNan (flatten_lt inc bound idx prev vs ! j) \<and>
         dir_le inc prev (flatten_lt inc bound idx prev vs ! j)"
  using assms
proof (induction idx prev vs rule: flatten_lt_walk_induct[of bound _ inc])
  case (step idx prev vs)
  from step.prems(4) have lt: "idx < bound" by (simp add: walked_def)
  let ?p = "clampStep inc prev (vs ! idx)"
  let ?vs = "vs[idx := ?p]"
  let ?r = "flatten_lt inc bound (idx + 3) ?p ?vs"
  have r: "flatten_lt inc bound idx prev vs = ?r" by (rule flatten_lt_step[OF lt])
  have vi: "\<not> IsNan (vs ! idx)" using step.prems(3) lt by (simp add: walked_def)
  note m = clampStep_mono[OF step.prems(2) vi, of inc]
  show ?case
  proof (cases "j = idx")
    case True
    have "flatten_lt inc bound idx prev vs ! idx = ?p"
      using lt step.prems(1) by (simp add: flatten_lt_at_idx)
    with m True show ?thesis by simp
  next
    case False
    with step.prems(4) lt have w: "walked (idx + 3) bound j" by (simp add: walked_step)
    have nn: "\<forall>j. walked (idx + 3) bound j \<longrightarrow> \<not> IsNan (?vs ! j)"
    proof (intro allI impI)
      fix k assume k: "walked (idx + 3) bound k"
      then have "k \<noteq> idx" "walked idx bound k" using walked_later by blast+
      with step.prems(3) show "\<not> IsNan (?vs ! k)" by simp
    qed
    have IH: "\<not> IsNan (?r ! j) \<and> dir_le inc ?p (?r ! j)"
      using step.IH[OF lt _ m(1) nn w] step.prems(1) by simp
    with m(2) have "dir_le inc prev (?r ! j)" by (blast intro: dir_le_trans)
    with IH show ?thesis by (simp add: r)
  qed
qed

lemma flatten_lt_monotone:
  assumes "bound \<le> length vs" "\<not> IsNan prev" "\<forall>j. walked idx bound j \<longrightarrow> \<not> IsNan (vs ! j)"
    and "walked idx bound i" "walked idx bound j" "i \<le> j"
  shows "dir_le inc (flatten_lt inc bound idx prev vs ! i) (flatten_lt inc bound idx prev vs ! j)"
  using assms
proof (induction idx prev vs rule: flatten_lt_walk_induct[of bound _ inc])
  case (step idx prev vs)
  from step.prems(4) have lt: "idx < bound" by (simp add: walked_def)
  let ?p = "clampStep inc prev (vs ! idx)"
  let ?vs = "vs[idx := ?p]"
  let ?r = "flatten_lt inc bound (idx + 3) ?p ?vs"
  have r: "flatten_lt inc bound idx prev vs = ?r" by (rule flatten_lt_step[OF lt])
  have vi: "\<not> IsNan (vs ! idx)" using step.prems(3) lt by (simp add: walked_def)
  note m = clampStep_mono[OF step.prems(2) vi, of inc]
  have nn: "\<forall>j. walked (idx + 3) bound j \<longrightarrow> \<not> IsNan (?vs ! j)"
  proof (intro allI impI)
    fix k assume k: "walked (idx + 3) bound k"
    then have "k \<noteq> idx" "walked idx bound k" using walked_later by blast+
    with step.prems(3) show "\<not> IsNan (?vs ! k)" by simp
  qed
  have len: "bound \<le> length ?vs" using step.prems(1) by simp
  have at: "?r ! idx = ?p"
    using flatten_lt_at_idx[OF lt, of vs inc prev] lt step.prems(1) by (simp add: r)
  show ?case
  proof (cases "i = idx")
    case True
    show ?thesis
    proof (cases "j = idx")
      case True
      with \<open>i = idx\<close> m(1) at show ?thesis
        by (simp add: r dir_le_refl)
    next
      case False
      with step.prems(5) lt have w: "walked (idx + 3) bound j" by (simp add: walked_step)
      from flatten_lt_bounded_by_seed[OF len m(1) nn w, of inc] at \<open>i = idx\<close>
      show ?thesis by (simp add: r)
    qed
  next
    case False
    with step.prems(4) lt have wi: "walked (idx + 3) bound i" by (simp add: walked_step)
    then have "idx < i" by (simp add: walked_def)
    with step.prems(6) have "j \<noteq> idx" by simp
    with step.prems(5) lt have wj: "walked (idx + 3) bound j" by (simp add: walked_step)
    from step.IH[OF lt len m(1) nn wi wj step.prems(6)]
    show ?thesis by (simp add: r)
  qed
qed

lemma flatten_lt_idem:
  assumes "bound \<le> length vs"
  shows "flatten_lt inc bound idx prev (flatten_lt inc bound idx prev vs)
           = flatten_lt inc bound idx prev vs"
  using assms
proof (induction idx prev vs rule: flatten_lt_walk_induct[of bound _ inc])
  case (step idx prev vs)
  show ?case
  proof (cases "idx < bound")
    case False
    then show ?thesis by (simp add: flatten_lt_stop)
  next
    case lt: True
    let ?p = "clampStep inc prev (vs ! idx)"
    let ?vs = "vs[idx := ?p]"
    let ?r = "flatten_lt inc bound (idx + 3) ?p ?vs"
    have r: "flatten_lt inc bound idx prev vs = ?r" by (rule flatten_lt_step[OF lt])
    have at: "?r ! idx = ?p"
      using flatten_lt_at_idx[OF lt, of vs inc prev] lt step.prems by (simp add: r)
    have "flatten_lt inc bound idx prev ?r =
            flatten_lt inc bound (idx + 3) (clampStep inc prev (?r ! idx))
              (?r[idx := clampStep inc prev (?r ! idx)])"
      by (rule flatten_lt_step[OF lt])
    also have "\<dots> = flatten_lt inc bound (idx + 3) ?p (?r[idx := ?p])"
      by (simp add: at clampStep_again)
    also have "?r[idx := ?p] = ?r"
      using list_update_id[of ?r idx] by (simp only: at)
    also have "flatten_lt inc bound (idx + 3) ?p ?r = ?r"
      using step.IH[OF lt] step.prems by simp
    finally show ?thesis by (simp add: r)
  qed
qed

lemma flatten_lt_inc_above:
  assumes "bound \<le> length vs" "\<not> IsNan prev" "walked idx bound j" "\<not> IsNan (vs ! j)"
  shows "flt_le (vs ! j) (flatten_lt True bound idx prev vs ! j)"
  using assms
proof (induction idx prev vs rule: flatten_lt_walk_induct[of bound _ True])
  case (step idx prev vs)
  from step.prems(3) have lt: "idx < bound" by (simp add: walked_def)
  let ?p = "clampStep True prev (vs ! idx)"
  let ?vs = "vs[idx := ?p]"
  let ?r = "flatten_lt True bound (idx + 3) ?p ?vs"
  have r: "flatten_lt True bound idx prev vs = ?r" by (rule flatten_lt_step[OF lt])
  show ?case
  proof (cases "j = idx")
    case True
    have "flatten_lt True bound idx prev vs ! idx = ?p"
      using lt step.prems(1) by (simp add: flatten_lt_at_idx)
    with True clampStep_above[OF step.prems(2), of "vs ! idx"] step.prems(4)
    show ?thesis by simp
  next
    case False
    with step.prems(3) lt have w: "walked (idx + 3) bound j" by (simp add: walked_step)
    have "flt_le (?vs ! j) (?r ! j)"
      using step.IH[OF lt _ clampStep_True_notNan[OF step.prems(2)] w] step.prems(1,4) False
      by simp
    with False show ?thesis by (simp add: r)
  qed
qed

lemma flatten_lt_dec_below:
  assumes "bound \<le> length vs" "walked idx bound j"
  shows "flatten_lt False bound idx prev vs ! j = vs ! j
         \<or> flt_lt (flatten_lt False bound idx prev vs ! j) (vs ! j)"
  using assms
proof (induction idx prev vs rule: flatten_lt_walk_induct[of bound _ False])
  case (step idx prev vs)
  from step.prems(2) have lt: "idx < bound" by (simp add: walked_def)
  let ?p = "clampStep False prev (vs ! idx)"
  let ?vs = "vs[idx := ?p]"
  let ?r = "flatten_lt False bound (idx + 3) ?p ?vs"
  have r: "flatten_lt False bound idx prev vs = ?r" by (rule flatten_lt_step[OF lt])
  show ?case
  proof (cases "j = idx")
    case True
    have "flatten_lt False bound idx prev vs ! idx = ?p"
      using lt step.prems(1) by (simp add: flatten_lt_at_idx)
    with True clampStep_below[of prev "vs ! idx"] show ?thesis by simp
  next
    case False
    with step.prems(2) lt have w: "walked (idx + 3) bound j" by (simp add: walked_step)
    have "?r ! j = ?vs ! j \<or> flt_lt (?r ! j) (?vs ! j)"
      using step.IH[OF lt _ w] step.prems(1) by simp
    with False show ?thesis by (simp add: r)
  qed
qed

text \<open>The detected direction is the same after the walk.\<close>

lemma flatten_lt_direction_stable:
  assumes "bound \<le> length vs" "walked idx bound j"
  shows "flt_lt prev (flatten_lt (flt_lt prev (vs ! j)) bound idx prev vs ! j)
           = flt_lt prev (vs ! j)"
proof (cases "flt_lt prev (vs ! j)")
  case True
  then have nn: "\<not> IsNan prev" "\<not> IsNan (vs ! j)" by (simp_all add: flt_lt_def)
  from flatten_lt_inc_above[OF assms(1) nn(1) assms(2) nn(2)] True
  show ?thesis by (auto simp: flt_le_def flt_lt_def)
next
  case False
  from flatten_lt_dec_below[OF assms, of prev] False
  show ?thesis by (auto simp: flt_lt_def)
qed

lemma flatten_lt_agree:
  assumes "length vs = length ws" "bound \<le> length vs"
    and "\<forall>j. walked idx bound j \<longrightarrow> vs ! j = ws ! j" and "walked idx bound j"
  shows "flatten_lt inc bound idx prev vs ! j = flatten_lt inc bound idx prev ws ! j"
  using assms
proof (induction idx prev vs arbitrary: ws rule: flatten_lt_walk_induct[of bound _ inc])
  case (step idx prev vs)
  from step.prems(4) have lt: "idx < bound" by (simp add: walked_def)
  then have same: "vs ! idx = ws ! idx" using step.prems(3) by (simp add: walked_def)
  let ?p = "clampStep inc prev (vs ! idx)"
  have rv: "flatten_lt inc bound idx prev vs = flatten_lt inc bound (idx + 3) ?p (vs[idx := ?p])"
    by (rule flatten_lt_step[OF lt])
  have rw: "flatten_lt inc bound idx prev ws = flatten_lt inc bound (idx + 3) ?p (ws[idx := ?p])"
    using flatten_lt_step[OF lt, of inc prev ws] by (simp add: same)
  show ?case
  proof (cases "j = idx")
    case True
    have "flatten_lt inc bound idx prev vs ! idx = ?p"
      using lt step.prems(2) by (simp add: flatten_lt_at_idx)
    moreover have "flatten_lt inc bound idx prev ws ! idx = ?p"
      using lt step.prems(1,2) by (simp add: flatten_lt_at_idx same)
    ultimately show ?thesis using True by simp
  next
    case False
    with step.prems(4) lt have w: "walked (idx + 3) bound j" by (simp add: walked_step)
    have ag: "\<forall>j. walked (idx + 3) bound j \<longrightarrow> vs[idx := ?p] ! j = ws[idx := ?p] ! j"
    proof (intro allI impI)
      fix k assume "walked (idx + 3) bound k"
      then have "k \<noteq> idx" "walked idx bound k" using walked_later by blast+
      with step.prems(3) show "vs[idx := ?p] ! k = ws[idx := ?p] ! k" by simp
    qed
    from step.IH[OF lt _ _ ag w] step.prems(1,2)
    show ?thesis by (simp add: rv rw)
  qed
qed

lemma flatten_lt_fixpoint_transfer:
  assumes "flatten_lt inc bound idx prev vs = vs"
    and "length vs = length ws" "bound \<le> length vs"
    and "\<forall>j. walked idx bound j \<longrightarrow> vs ! j = ws ! j"
  shows "flatten_lt inc bound idx prev ws = ws"
proof (rule nth_equalityI)
  show "length (flatten_lt inc bound idx prev ws) = length ws" by simp
next
  fix j assume "j < length (flatten_lt inc bound idx prev ws)"
  show "flatten_lt inc bound idx prev ws ! j = ws ! j"
  proof (cases "walked idx bound j")
    case True
    from flatten_lt_agree[OF assms(2,3,4) True, of inc prev] assms(1,4) True
    show ?thesis by simp
  next
    case False
    then show ?thesis by (rule flatten_lt_untouched)
  qed
qed

lemma flattenReversals_standard:
  "flattenReversals False len c inc vs = flatten_lt inc (len * 3) (c + 3) (vs ! c) vs"
  by (simp add: flattenReversals_def getMaxColorComponents_def)

lemma flattenReversals_half:
  "flattenReversals True len c inc vs =
     flatten_lt (\<not> inc) 193537 (98304 + c) (flatten_lt inc 95233 (c + 3) (vs ! c) vs ! c)
       (flatten_lt inc 95233 (c + 3) (vs ! c) vs)"
  by (simp add: flattenReversals_def getMaxColorComponents_def flatten_le_lt Let_def)

lemma prepareChannel_snd:
  "snd (prepareChannel halfDomain len c (props, vs)) = flattenChannel halfDomain len c vs"
  by (simp add: prepareChannel_def Let_def flattenChannel_def channelDirection_def
      getMaxColorComponents_def)

lemma prepareChannel_fst:
  "length (fst (prepareChannel halfDomain len c (props, vs))) = length props"
  "c < length props \<Longrightarrow>
     isIncreasing (fst (prepareChannel halfDomain len c (props, vs)) ! c)
       = channelDirection halfDomain len c vs"
  "k \<noteq> c \<Longrightarrow> fst (prepareChannel halfDomain len c (props, vs)) ! k = props ! k"
  by (simp_all add: prepareChannel_def Let_def channelDirection_def getMaxColorComponents_def)

lemma walked_iff_mod:
  "walked idx bound j \<longleftrightarrow> idx \<le> j \<and> j < bound \<and> j mod 3 = idx mod 3"
  by (auto simp: walked_def mod_eq_dvd_iff_nat dvd_eq_mod_eq_0)

lemma walked_mod: "walked idx bound j \<Longrightarrow> j mod 3 = idx mod 3"
  by (simp add: walked_iff_mod)

lemma flatten_lt_seed_untouched:
  "c < idx \<Longrightarrow> flatten_lt inc bound idx prev vs ! c = vs ! c"
  by (rule flatten_lt_untouched) (simp add: walked_def)

lemma flattenChannel_length [simp]:
  "length (flattenChannel h len c vs) = length vs"
  by (cases h) (simp_all add: flattenChannel_def flattenReversals_standard flattenReversals_half)

lemma walked_chan:
  assumes "(c::nat) < 3"
  shows "walked (c + 3) bound j \<Longrightarrow> j mod 3 = c"
    and "walked (98304 + c) bound j \<Longrightarrow> j mod 3 = c"
proof -
  have "(98304 + c) mod 3 = (32768 * 3 + c) mod 3" by simp
  also have "\<dots> = c mod 3" by (simp only: mod_mult_self3)
  finally have m: "(98304 + c) mod 3 = c" using assms by simp
  show "walked (c + 3) bound j \<Longrightarrow> j mod 3 = c"
    using assms by (simp add: walked_iff_mod)
  show "walked (98304 + c) bound j \<Longrightarrow> j mod 3 = c"
    using m by (simp add: walked_iff_mod)
qed

lemma flattenChannel_other:
  assumes "c < 3" "j mod 3 \<noteq> c"
  shows "flattenChannel h len c vs ! j = vs ! j"
proof -
  have nw: "\<And>bound. \<not> walked (c + 3) bound j" "\<And>bound. \<not> walked (98304 + c) bound j"
    using assms walked_chan[OF assms(1)] by blast+
  then show ?thesis
    by (cases h)
       (simp_all add: flattenChannel_def flattenReversals_standard flattenReversals_half
          flatten_lt_untouched)
qed

lemma flattenChannel_seed:
  "flattenChannel h len c vs ! c = vs ! c"
  by (cases h)
     (simp_all add: flattenChannel_def flattenReversals_standard flattenReversals_half
        flatten_lt_seed_untouched)

lemma mod_high_rows:
  "(c::nat) < 3 \<Longrightarrow> (46080 + c) mod 3 = c"
  "(c::nat) < 3 \<Longrightarrow> (k * 3 + c) mod 3 = c"
proof -
  assume "c < 3"
  have "(46080 + c) mod 3 = (15360 * 3 + c) mod 3" by simp
  also have "\<dots> = c mod 3" by (simp only: mod_mult_self3)
  finally show "(46080 + c) mod 3 = c" using \<open>c < 3\<close> by simp
  show "(k * 3 + c) mod 3 = c" using \<open>c < 3\<close> by simp
qed

lemma channelDirection_agree:
  assumes "(c::nat) < 3" "\<forall>j. j mod 3 = c \<longrightarrow> vs ! j = ws ! j"
  shows "channelDirection h len c ws = channelDirection h len c vs"
proof -
  have "(46080 + c) mod 3 = c" "((len - 1) * 3 + c) mod 3 = c" "c mod 3 = c"
    using assms(1) by (simp_all add: mod_high_rows)
  with assms(2) show ?thesis by (simp add: channelDirection_def)
qed

lemma flattenChannel_standard_agree:
  assumes "length vs = length ws" "length vs = len * 3" "c < 3"
    and "\<forall>j. j mod 3 = c \<longrightarrow> vs ! j = ws ! j" and "j mod 3 = c"
  shows "flattenChannel False len c vs ! j = flattenChannel False len c ws ! j"
proof -
  let ?inc = "channelDirection False len c vs"
  have d: "channelDirection False len c ws = ?inc"
    by (rule channelDirection_agree[OF assms(3,4)])
  have seed: "ws ! c = vs ! c" using assms(3,4) by simp
  have "flatten_lt ?inc (len * 3) (c + 3) (vs ! c) vs ! j
        = flatten_lt ?inc (len * 3) (c + 3) (vs ! c) ws ! j"
  proof (cases "walked (c + 3) (len * 3) j")
    case True
    have "\<forall>j. walked (c + 3) (len * 3) j \<longrightarrow> vs ! j = ws ! j"
      using assms(4) walked_chan[OF assms(3)] by blast
    from flatten_lt_agree[OF assms(1) _ this True] assms(2) show ?thesis by simp
  next
    case False
    with assms(4,5) show ?thesis by (simp add: flatten_lt_untouched)
  qed
  then show ?thesis
    by (simp add: flattenChannel_def flattenReversals_standard d seed)
qed

lemma flattenChannel_half_agree:
  assumes "length vs = length ws" "length vs = 196608" "c < 3"
    and "\<forall>j. j mod 3 = c \<longrightarrow> vs ! j = ws ! j" and "j mod 3 = c"
  shows "flattenChannel True len c vs ! j = flattenChannel True len c ws ! j"
proof -
  let ?inc = "channelDirection True len c vs"
  let ?v1 = "flatten_lt ?inc 95233 (c + 3) (vs ! c) vs"
  let ?w1 = "flatten_lt ?inc 95233 (c + 3) (vs ! c) ws"
  have d: "channelDirection True len c ws = ?inc"
    by (rule channelDirection_agree[OF assms(3,4)])
  have seed: "ws ! c = vs ! c" using assms(3,4) by simp
  have a1: "?v1 ! k = ?w1 ! k" if "k mod 3 = c" for k
  proof (cases "walked (c + 3) 95233 k")
    case True
    have "\<forall>j. walked (c + 3) 95233 j \<longrightarrow> vs ! j = ws ! j"
      using assms(4) walked_chan[OF assms(3)] by blast
    from flatten_lt_agree[OF assms(1) _ this True] assms(2) show ?thesis by simp
  next
    case False
    with assms(4) that show ?thesis by (simp add: flatten_lt_untouched)
  qed
  have s1: "?w1 ! c = ?v1 ! c" using a1[of c] assms(3) by simp
  have "flatten_lt (\<not> ?inc) 193537 (98304 + c) (?v1 ! c) ?v1 ! j
        = flatten_lt (\<not> ?inc) 193537 (98304 + c) (?v1 ! c) ?w1 ! j"
  proof (cases "walked (98304 + c) 193537 j")
    case True
    have "\<forall>j. walked (98304 + c) 193537 j \<longrightarrow> ?v1 ! j = ?w1 ! j"
      using a1 walked_chan[OF assms(3)] by blast
    from flatten_lt_agree[OF _ _ this True] assms(1,2) show ?thesis by simp
  next
    case False
    with a1[OF assms(5)] show ?thesis by (simp add: flatten_lt_untouched)
  qed
  then show ?thesis
    by (simp add: flattenChannel_def flattenReversals_half d seed s1)
qed

lemma flattenChannel_agree:
  assumes "length vs = length ws" "length vs = len * 3" "c < 3" "h \<longrightarrow> len = 65536"
    and "\<forall>j. j mod 3 = c \<longrightarrow> vs ! j = ws ! j" and "j mod 3 = c"
  shows "flattenChannel h len c vs ! j = flattenChannel h len c ws ! j"
proof (cases h)
  case True
  with assms(2,4) have "length vs = 196608" by simp
  from flattenChannel_half_agree[OF assms(1) this assms(3,5,6)] True show ?thesis by simp
next
  case False
  from flattenChannel_standard_agree[OF assms(1,2,3,5,6)] False show ?thesis by simp
qed

lemma flattenChannel_standard_idem:
  assumes "length vs = len * 3" "c < 3" "1 \<le> len"
  shows "flattenChannel False len c (flattenChannel False len c vs) = flattenChannel False len c vs"
proof -
  let ?inc = "channelDirection False len c vs"
  let ?r = "flatten_lt ?inc (len * 3) (c + 3) (vs ! c) vs"
  have r: "flattenChannel False len c vs = ?r"
    by (simp add: flattenChannel_def flattenReversals_standard)
  have seed: "?r ! c = vs ! c" by (simp add: flatten_lt_seed_untouched)
  have dir: "channelDirection False len c ?r = ?inc"
  proof (cases "len = 1")
    case True
    then have "?r = vs" by (simp add: flatten_lt_stop)
    then show ?thesis by simp
  next
    case False
    with assms(3) have l2: "2 \<le> len" by simp
    have m: "((len - 1) * 3 + c) mod 3 = c" using assms(2) by (simp add: mod_high_rows)
    from l2 have b: "c + 3 \<le> (len - 1) * 3 + c" "(len - 1) * 3 + c < len * 3"
      using assms(2) by (simp_all add: diff_mult_distrib)
    have w: "walked (c + 3) (len * 3) ((len - 1) * 3 + c)"
      using assms(2) m b by (simp only: walked_iff_mod) simp
    from flatten_lt_direction_stable[OF _ w, of vs "vs ! c"] assms(1)
    show ?thesis by (simp add: channelDirection_def flatten_lt_seed_untouched)
  qed
  have "flattenChannel False len c ?r = flatten_lt ?inc (len * 3) (c + 3) (vs ! c) ?r"
    by (simp add: flattenChannel_def flattenReversals_standard dir seed)
  also have "\<dots> = ?r" using assms(1) by (simp add: flatten_lt_idem)
  finally show ?thesis by (simp add: r)
qed

lemma flattenChannel_half_idem:
  assumes "length vs = 196608" "c < 3"
  shows "flattenChannel True len c (flattenChannel True len c vs) = flattenChannel True len c vs"
proof -
  define inc where "inc = channelDirection True len c vs"
  define r1 where "r1 = flatten_lt inc 95233 (c + 3) (vs ! c) vs"
  define r2 where "r2 = flatten_lt (\<not> inc) 193537 (98304 + c) (r1 ! c) r1"
  have r: "flattenChannel True len c vs = r2"
    by (simp add: flattenChannel_def flattenReversals_half r2_def r1_def inc_def)
  have len1: "length r1 = 196608" and len2: "length r2 = 196608"
    using assms(1) by (simp_all add: r1_def r2_def)
  have seed1: "r1 ! c = vs ! c" by (simp add: r1_def flatten_lt_seed_untouched)
  have seed2: "r2 ! c = r1 ! c" by (simp add: r2_def flatten_lt_seed_untouched)
  have pos: "r2 ! j = r1 ! j" if "j < 98304" for j
    unfolding r2_def by (rule flatten_lt_untouched) (use that in \<open>simp add: walked_def\<close>)
  have m: "(46080 + c) mod 3 = c" using assms(2) by (simp add: mod_high_rows)
  have w: "walked (c + 3) 95233 (46080 + c)"
    using assms(2) m by (simp only: walked_iff_mod) simp
  have "flt_lt (vs ! c) (r1 ! (46080 + c)) = flt_lt (vs ! c) (vs ! (46080 + c))"
    unfolding r1_def inc_def channelDirection_def
    using flatten_lt_direction_stable[OF _ w, of vs "vs ! c"] assms(1) by simp
  moreover have "r2 ! (46080 + c) = r1 ! (46080 + c)" using assms(2) by (simp add: pos)
  ultimately have dir: "channelDirection True len c r2 = inc"
    by (simp add: channelDirection_def seed2 seed1 inc_def)
  have fix1: "flatten_lt inc 95233 (c + 3) (vs ! c) r1 = r1"
    unfolding r1_def using assms(1) by (simp add: flatten_lt_idem)
  have ag: "\<forall>j. walked (c + 3) 95233 j \<longrightarrow> r1 ! j = r2 ! j"
    by (simp add: walked_def pos)
  have p2: "flatten_lt inc 95233 (c + 3) (vs ! c) r2 = r2"
    using flatten_lt_fixpoint_transfer[OF fix1 _ _ ag] len1 len2 by simp
  have n2: "flatten_lt (\<not> inc) 193537 (98304 + c) (r1 ! c) r2 = r2"
    unfolding r2_def using len1 by (simp add: flatten_lt_idem)
  have "flattenChannel True len c r2 =
          flatten_lt (\<not> inc) 193537 (98304 + c)
            (flatten_lt inc 95233 (c + 3) (r2 ! c) r2 ! c)
            (flatten_lt inc 95233 (c + 3) (r2 ! c) r2)"
    by (simp only: flattenChannel_def flattenReversals_half dir)
  also have "\<dots> = r2"
    by (simp only: seed2 seed1 p2 n2[unfolded seed1])
  finally show ?thesis by (simp only: r)
qed

lemma flattenChannel_idem:
  assumes "length vs = len * 3" "c < 3" "1 \<le> len" "h \<longrightarrow> len = 65536"
  shows "flattenChannel h len c (flattenChannel h len c vs) = flattenChannel h len c vs"
proof (cases h)
  case True
  with assms(1,4) have "length vs = 196608" by simp
  from flattenChannel_half_idem[OF this assms(2)] True show ?thesis by simp
next
  case False
  from flattenChannel_standard_idem[OF assms(1,2,3)] False show ?thesis by simp
qed

text \<open>A fixed point of one channel's flattening stays one when other channels change.\<close>

lemma flattenChannel_fixpoint_transfer:
  assumes "flattenChannel h len c vs = vs"
    and "length vs = length ws" "length vs = len * 3" "c < 3" "h \<longrightarrow> len = 65536"
    and "\<forall>j. j mod 3 = c \<longrightarrow> vs ! j = ws ! j"
  shows "flattenChannel h len c ws = ws"
proof (rule nth_equalityI)
  show "length (flattenChannel h len c ws) = length ws" by simp
next
  fix j assume "j < length (flattenChannel h len c ws)"
  show "flattenChannel h len c ws ! j = ws ! j"
  proof (cases "j mod 3 = c")
    case True
    from flattenChannel_agree[OF assms(2,3,4,5,6) True] assms(1,6) True
    show ?thesis by simp
  next
    case False
    with assms(4) show ?thesis by (simp add: flattenChannel_other)
  qed
qed

section \<open>Idempotence of finalization\<close>

lemma fold_prepareChannel_snd:
  "snd (fold (prepareChannel h len) cs (props, vs)) = fold (flattenChannel h len) cs vs"
proof (induction cs arbitrary: props vs)
  case Nil
  show ?case by simp
next
  case (Cons c cs)
  obtain p where "prepareChannel h len c (props, vs) = (p, flattenChannel h len c vs)"
    using prepareChannel_snd[of h len c props vs] by (metis prod.collapse)
  then show ?case by (simp add: Cons.IH)
qed

lemma fold_flattenChannel_length [simp]:
  "length (fold (flattenChannel h len) cs vs) = length vs"
  by (induction cs arbitrary: vs) simp_all

lemma fold_flattenChannel_fixpoint:
  assumes "length vs = len * 3" "1 \<le> len" "h \<longrightarrow> len = 65536" "k \<le> 3" "c < k"
  shows "flattenChannel h len c (fold (flattenChannel h len) [0..<k] vs)
           = fold (flattenChannel h len) [0..<k] vs"
  using assms(4,5)
proof (induction k)
  case 0
  then show ?case by simp
next
  case (Suc k)
  let ?w = "fold (flattenChannel h len) [0..<k] vs"
  have step: "fold (flattenChannel h len) [0..<Suc k] vs = flattenChannel h len k ?w" by simp
  have lw: "length ?w = len * 3" using assms(1) by simp
  from Suc.prems have k3: "k < 3" by simp
  show ?case
  proof (cases "c = k")
    case True
    from flattenChannel_idem[OF lw k3 assms(2,3)] True show ?thesis by (simp only: step)
  next
    case False
    with Suc.prems have ck: "c < k" by simp
    then have c3: "c < 3" using k3 by simp
    from Suc.IH ck k3 have fixc: "flattenChannel h len c ?w = ?w" by simp
    have ag: "\<forall>j. j mod 3 = c \<longrightarrow> ?w ! j = flattenChannel h len k ?w ! j"
      using flattenChannel_other[OF k3, of _ h len ?w] False by simp
    from flattenChannel_fixpoint_transfer[OF fixc _ lw c3 assms(3) ag]
    show ?thesis by (simp only: step) simp
  qed
qed

lemma fold_flattenChannel_idem:
  assumes "length vs = len * 3" "1 \<le> len" "h \<longrightarrow> len = 65536" "k \<le> 3" "k' \<le> k"
  shows "fold (flattenChannel h len) [0..<k'] (fold (flattenChannel h len) [0..<k] vs)
           = fold (flattenChannel h len) [0..<k] vs"
  using assms(5)
proof (induction k')
  case 0
  show ?case by simp
next
  case (Suc k')
  then have "k' < k" "k' \<le> k" by simp_all
  with Suc.IH fold_flattenChannel_fixpoint[OF assms(1,2,3,4), of k']
  show ?case by simp
qed

lemma prepareArray_data:
  "m_data (m_array (prepareArray lut)) =
     fold (flattenChannel (isInputHalfDomain lut) (m_length (m_array lut)))
       [0..<m_numColorComponents (m_array lut)] (m_data (m_array lut))"
  by (simp add: prepareArray_def Let_def fold_prepareChannel_snd)

lemma adjust_idem:
  "adjustColorComponentNumber (adjustColorComponentNumber a) = adjustColorComponentNumber a"
  by (simp add: adjustColorComponentNumber_def)

lemma adjust_ncc:
  "m_numColorComponents (adjustColorComponentNumber a) = 1
   \<or> adjustColorComponentNumber a = a"
  by (simp add: adjustColorComponentNumber_def)

lemma prepareArray_array:
  "m_array (prepareArray lut) =
     (m_array lut)\<lparr>m_data :=
        fold (flattenChannel (isInputHalfDomain lut) (m_length (m_array lut)))
          [0..<m_numColorComponents (m_array lut)] (m_data (m_array lut))\<rparr>"
  by (simp add: prepareArray_def Let_def fold_prepareChannel_snd)

lemma validate_cong:
  assumes "m_interpolation a = m_interpolation b" "m_array a = m_array b"
    "m_halfFlags a = m_halfFlags b"
  shows "validate E a = validate E b"
  using assms
  by (auto simp: validate_def OpData_validate_def isInputHalfDomain_def split: option.split)

lemma finalize_prepare_array_idem:
  assumes "Array_invariant (m_array lut)"
    and "isInputHalfDomain lut \<longrightarrow> m_length (m_array lut) = 65536"
  shows "m_array (finalize_prepare (finalize_prepare lut)) = m_array (finalize_prepare lut)"
proof (cases "m_direction lut = TRANSFORM_DIR_INVERSE")
  case False
  then show ?thesis
    by (simp add: finalize_prepare_def Let_def adjust_idem)
next
  case True
  define h where "h = isInputHalfDomain lut"
  define len where "len = m_length (m_array lut)"
  define k where "k = m_numColorComponents (m_array lut)"
  define D1 where "D1 = fold (flattenChannel h len) [0..<k] (m_data (m_array lut))"
  define a1 where "a1 = adjustColorComponentNumber ((m_array lut)\<lparr>m_data := D1\<rparr>)"
  define P where "P = finalize_prepare lut"
  from assms(1) have inv: "length (m_data (m_array lut)) = len * 3" "1 \<le> len" "1 \<le> k" "k \<le> 3"
    by (simp_all add: Array_invariant_def getMaxColorComponents_def len_def k_def)
  from assms(2) have hl: "h \<longrightarrow> len = 65536" by (simp add: h_def len_def)
  have P: "m_array P = a1" "m_direction P = TRANSFORM_DIR_INVERSE" "isInputHalfDomain P = h"
    using True
    by (simp_all add: P_def finalize_prepare_def Let_def initializeFromForward_def
        prepareArray_array a1_def D1_def h_def len_def k_def isInputHalfDomain_def)
  have a1: "m_data a1 = D1" "m_length a1 = len" by (simp_all add: a1_def len_def)
  have k1: "m_numColorComponents a1 \<le> k"
    using adjust_ncc[of "(m_array lut)\<lparr>m_data := D1\<rparr>"] inv(3)
    by (auto simp: a1_def k_def)
  have "fold (flattenChannel h len) [0..<m_numColorComponents a1] D1 = D1"
    unfolding D1_def by (rule fold_flattenChannel_idem[OF inv(1,2) hl inv(4) k1])
  then have "m_array (prepareArray P) = a1"
    by (simp add: prepareArray_array P a1)
  then have "m_array (finalize_prepare P) = adjustColorComponentNumber a1"
    using P(2) by (simp add: finalize_prepare_def Let_def initializeFromForward_def)
  also have "\<dots> = a1" by (simp add: a1_def adjust_idem)
  finally show ?thesis by (simp add: P_def[symmetric] P(1))
qed

lemma finalize_prepare_cacheID_upd:
  "finalize_prepare (lut\<lparr>m_cacheID := x\<rparr>) = (finalize_prepare lut)\<lparr>m_cacheID := x\<rparr>"
  by (simp add: finalize_prepare_def Let_def initializeFromForward_def prepareArray_def
      isInputHalfDomain_def)

text \<open>
  C7.  \<^verbatim>\<open>finalize\<close> is idempotent on an otherwise unchanged LUT, forward or inverse: when
  \<^verbatim>\<open>finalize\<close> succeeds on a LUT, a second call on its result succeeds too and produces
  the same cache id.  The LUT's array has the shape that the array class keeps (three
  values for each of its rows, at least one row, one to three active components), so
  that every index of the preparation is inside the values.
\<close>

theorem finalize_idempotent:
  assumes "finalize E lut = Inr lut'" and "Array_invariant (m_array lut)"
  shows "\<exists>lut''. finalize E lut' = Inr lut'' \<and> m_cacheID lut'' = m_cacheID lut'"
proof -
  define P where "P = finalize_prepare lut"
  from assms(1) have v: "validate E P = Inr ()"
    and l': "lut' = P\<lparr>m_cacheID := m_cacheID lut'\<rparr>"
    unfolding finalize_Inr_iff P_def by simp_all
  from v have hl: "isInputHalfDomain lut \<longrightarrow> m_length (m_array lut) = 65536"
    by (auto simp: validate_def OpData_validate_def P_def isInputHalfDomain_def
        HALF_DOMAIN_REQUIRED_ENTRIES_def split: if_splits option.splits)
  have arr: "m_array (finalize_prepare P) = m_array P"
    unfolding P_def by (rule finalize_prepare_array_idem[OF assms(2) hl])
  have fp: "finalize_prepare lut' = (finalize_prepare P)\<lparr>m_cacheID := m_cacheID lut'\<rparr>"
    by (subst l') (rule finalize_prepare_cacheID_upd)
  have arr': "m_array (finalize_prepare lut') = m_array P"
    by (simp only: fp) (simp add: arr)
  have "validate E (finalize_prepare lut') = validate E P"
  proof (rule validate_cong)
    show "m_interpolation (finalize_prepare lut') = m_interpolation P"
      using finalize_Inr_D(2)[OF assms(1)] by (simp add: P_def)
    show "m_array (finalize_prepare lut') = m_array P" by (rule arr')
    show "m_halfFlags (finalize_prepare lut') = m_halfFlags P"
      using finalize_Inr_D(3)[OF assms(1)] by (simp add: P_def)
  qed
  with v have v': "validate E (finalize_prepare lut') = Inr ()" by simp
  then obtain lut'' where f2: "finalize E lut' = Inr lut''"
    unfolding finalize_Inr_iff by simp
  have data: "m_array lut'' = m_array lut'"
    using finalize_Inr_D(6)[OF f2] finalize_Inr_D(6)[OF assms(1)] arr'
    by (simp add: P_def)
  have "m_cacheID lut'' = m_cacheID lut'"
    using finalize_Inr_D(1-5)[OF assms(1)] finalize_Inr_D(5)[OF f2] data
    by simp
  with f2 show ?thesis by blast
qed

section \<open>Monotonicity after the preparation\<close>

lemma walked_row:
  assumes "(c::nat) < 3" "s \<le> i" "i * 3 + c < bound"
  shows "walked (s * 3 + c) bound (i * 3 + c)"
  using assms by (simp add: walked_iff_mod)

lemma walked_is_row:
  assumes "(c::nat) < 3" "walked (s * 3 + c) bound j"
  obtains i where "j = i * 3 + c" "s \<le> i" "i * 3 + c < bound"
proof -
  from assms have j: "s * 3 + c \<le> j" "j < bound" "j mod 3 = c"
    by (simp_all add: walked_iff_mod)
  have eq: "j = (j div 3) * 3 + c" using j(3) by (metis div_mult_mod_eq)
  have "s \<le> j div 3"
  proof (rule ccontr)
    assume "\<not> s \<le> j div 3"
    then have "j div 3 + 1 \<le> s" by simp
    then have "(j div 3 + 1) * 3 \<le> s * 3" by (rule mult_le_mono1)
    with eq assms(1) j(1) show False by simp
  qed
  with eq j(2) show thesis by (intro that[of "j div 3"]) simp_all
qed

lemma walk_rows_monotone:
  assumes "bound \<le> length vs" "\<not> IsNan prev" "c < 3"
    and "\<forall>i. s \<le> i \<and> i * 3 + c < bound \<longrightarrow> \<not> IsNan (vs ! (i * 3 + c))"
    and "s \<le> i" "i \<le> j" "j * 3 + c < bound"
  shows "dir_le inc (flatten_lt inc bound (s * 3 + c) prev vs ! (i * 3 + c))
           (flatten_lt inc bound (s * 3 + c) prev vs ! (j * 3 + c))"
    and "dir_le inc prev (flatten_lt inc bound (s * 3 + c) prev vs ! (j * 3 + c))"
proof -
  have nn: "\<forall>k. walked (s * 3 + c) bound k \<longrightarrow> \<not> IsNan (vs ! k)"
  proof (intro allI impI)
    fix k assume "walked (s * 3 + c) bound k"
    from walked_is_row[OF assms(3) this] assms(4) show "\<not> IsNan (vs ! k)" by metis
  qed
  have wi: "walked (s * 3 + c) bound (i * 3 + c)"
    using assms(5,6,7) by (intro walked_row[OF assms(3)]) simp_all
  have wj: "walked (s * 3 + c) bound (j * 3 + c)"
    using assms(5,6,7) by (intro walked_row[OF assms(3)]) simp_all
  show "dir_le inc (flatten_lt inc bound (s * 3 + c) prev vs ! (i * 3 + c))
           (flatten_lt inc bound (s * 3 + c) prev vs ! (j * 3 + c))"
    using assms(6) by (intro flatten_lt_monotone[OF assms(1,2) nn wi wj]) simp
  show "dir_le inc prev (flatten_lt inc bound (s * 3 + c) prev vs ! (j * 3 + c))"
    using flatten_lt_bounded_by_seed[OF assms(1,2) nn wj] by simp
qed

lemma seeded_walk_monotone:
  assumes "bound \<le> length vs" "c < 3" "\<not> IsNan (vs ! c)"
    and "\<forall>i. 1 \<le> i \<and> i * 3 + c < bound \<longrightarrow> \<not> IsNan (vs ! (i * 3 + c))"
    and "i \<le> j" "j * 3 + c < bound"
  shows "dir_le inc (flatten_lt inc bound (c + 3) (vs ! c) vs ! (i * 3 + c))
           (flatten_lt inc bound (c + 3) (vs ! c) vs ! (j * 3 + c))"
proof -
  let ?r = "flatten_lt inc bound (c + 3) (vs ! c) vs"
  have idx: "c + 3 = 1 * 3 + c" by simp
  have seed: "?r ! c = vs ! c" by (simp add: flatten_lt_seed_untouched)
  show ?thesis
  proof (cases "i = 0")
    case i0: True
    show ?thesis
    proof (cases "j = 0")
      case True
      with i0 assms(3) show ?thesis by (simp add: seed dir_le_refl)
    next
      case False
      then have j1: "1 \<le> j" by simp
      have "dir_le inc (vs ! c) (flatten_lt inc bound (1 * 3 + c) (vs ! c) vs ! (j * 3 + c))"
        by (rule walk_rows_monotone(2)[where i = j])
           (use assms j1 in simp_all)
      then show ?thesis using i0 by (simp add: seed add.commute)
    qed
  next
    case False
    then have i1: "1 \<le> i" by simp
    have "dir_le inc (flatten_lt inc bound (1 * 3 + c) (vs ! c) vs ! (i * 3 + c))
            (flatten_lt inc bound (1 * 3 + c) (vs ! c) vs ! (j * 3 + c))"
      by (rule walk_rows_monotone(1)) (use assms i1 in simp_all)
    then show ?thesis by (simp add: add.commute)
  qed
qed

lemma flattenChannel_standard_monotone:
  assumes "length vs = len * 3" "c < 3" "\<forall>i<len. \<not> IsNan (vs ! (i * 3 + c))"
    and "i \<le> j" "j < len"
  shows "dir_le (channelDirection False len c vs)
           (flattenChannel False len c vs ! (i * 3 + c))
           (flattenChannel False len c vs ! (j * 3 + c))"
proof -
  have b: "k * 3 + c < len * 3 \<longleftrightarrow> k < len" for k
    using assms(2) by (auto simp: less_Suc_eq_le Suc_le_eq dest: mult_le_mono1[of _ _ 3])
  have s: "\<not> IsNan (vs ! c)" using assms(3)[rule_format, of 0] assms(5) by simp
  have nn: "\<forall>i. 1 \<le> i \<and> i * 3 + c < len * 3 \<longrightarrow> \<not> IsNan (vs ! (i * 3 + c))"
    using assms(3) by (simp add: b)
  have "dir_le (channelDirection False len c vs)
          (flatten_lt (channelDirection False len c vs) (len * 3) (c + 3) (vs ! c) vs ! (i * 3 + c))
          (flatten_lt (channelDirection False len c vs) (len * 3) (c + 3) (vs ! c) vs ! (j * 3 + c))"
    by (rule seeded_walk_monotone[OF _ assms(2) s nn assms(4)])
       (use assms(1,5) in \<open>simp_all add: b\<close>)
  then show ?thesis
    by (simp add: flattenChannel_def flattenReversals_standard)
qed

lemma flattenChannel_half_monotone_pos:
  assumes "length vs = 196608" "c < 3" "\<forall>i\<le>31744. \<not> IsNan (vs ! (i * 3 + c))"
    and "i \<le> j" "j * 3 + c < 95233"
  shows "dir_le (channelDirection True len c vs)
           (flattenChannel True len c vs ! (i * 3 + c))
           (flattenChannel True len c vs ! (j * 3 + c))"
proof -
  define inc where "inc = channelDirection True len c vs"
  define r1 where "r1 = flatten_lt inc 95233 (c + 3) (vs ! c) vs"
  define r2 where "r2 = flatten_lt (\<not> inc) 193537 (98304 + c) (r1 ! c) r1"
  have r: "flattenChannel True len c vs = r2"
    by (simp add: flattenChannel_def flattenReversals_half r2_def r1_def inc_def)
  have pos: "r2 ! k = r1 ! k" if "k < 98304" for k
    unfolding r2_def by (rule flatten_lt_untouched) (use that in \<open>simp add: walked_def\<close>)
  have s: "\<not> IsNan (vs ! c)" using assms(3)[rule_format, of 0] by simp
  have nn: "\<forall>i. 1 \<le> i \<and> i * 3 + c < 95233 \<longrightarrow> \<not> IsNan (vs ! (i * 3 + c))"
    using assms(3) by auto
  have "dir_le inc (r1 ! (i * 3 + c)) (r1 ! (j * 3 + c))"
    unfolding r1_def
    by (rule seeded_walk_monotone[OF _ assms(2) s nn assms(4)])
       (use assms(1,2,5) in simp_all)
  moreover have "i * 3 + c < 98304" "j * 3 + c < 98304" using assms(2,4,5) by simp_all
  ultimately show ?thesis by (simp add: r pos inc_def)
qed

lemma flattenChannel_half_monotone_neg:
  assumes "length vs = 196608" "c < 3" "\<not> IsNan (vs ! c)"
    and "\<forall>i. 32768 \<le> i \<and> i \<le> 64512 \<longrightarrow> \<not> IsNan (vs ! (i * 3 + c))"
    and "32768 \<le> i" "i \<le> j" "j \<le> 64511"
  shows "dir_le (\<not> channelDirection True len c vs)
           (flattenChannel True len c vs ! (i * 3 + c))
           (flattenChannel True len c vs ! (j * 3 + c))"
proof -
  define inc where "inc = channelDirection True len c vs"
  define r1 where "r1 = flatten_lt inc 95233 (c + 3) (vs ! c) vs"
  define r2 where "r2 = flatten_lt (\<not> inc) 193537 (32768 * 3 + c) (r1 ! c) r1"
  have r: "flattenChannel True len c vs = r2"
    by (simp add: flattenChannel_def flattenReversals_half r2_def r1_def inc_def add.commute)
  have neg: "r1 ! k = vs ! k" if "95233 \<le> k" for k
    unfolding r1_def by (rule flatten_lt_untouched) (use that in \<open>simp add: walked_def\<close>)
  have seed: "r1 ! c = vs ! c" by (simp add: r1_def flatten_lt_seed_untouched)
  have nn: "\<forall>i. 32768 \<le> i \<and> i * 3 + c < 193537 \<longrightarrow> \<not> IsNan (r1 ! (i * 3 + c))"
  proof (intro allI impI)
    fix k assume k: "32768 \<le> k \<and> k * 3 + c < 193537"
    then have "k \<le> 64512" "95233 \<le> k * 3 + c" by simp_all
    with assms(4) k show "\<not> IsNan (r1 ! (k * 3 + c))" by (simp add: neg)
  qed
  have "dir_le (\<not> inc) (r2 ! (i * 3 + c)) (r2 ! (j * 3 + c))"
    unfolding r2_def
    by (rule walk_rows_monotone(1)[OF _ _ assms(2) nn assms(5,6)])
       (use assms(1,2,3,7) in \<open>simp_all add: r1_def seed[unfolded r1_def]\<close>)
  then show ?thesis by (simp add: r inc_def)
qed

text \<open>The rows of the two infinities in channels 1 and 2 are outside every walk.\<close>

lemma flattenChannel_infinity_rows:
  assumes "c' < 3" "j = 95233 \<or> j = 95234 \<or> j = 193537 \<or> j = 193538"
  shows "flattenChannel True len c' vs ! j = vs ! j"
proof -
  have "\<not> walked (c' + 3) 95233 j" "\<not> walked (98304 + c') 193537 j"
    using assms by (auto simp: walked_def)
  then show ?thesis
    by (simp add: flattenChannel_def flattenReversals_half flatten_lt_untouched)
qed

lemma fold_flattenChannel_value:
  assumes "k \<le> 3" "length vs = len * 3" "h \<longrightarrow> len = 65536"
  shows "fold (flattenChannel h len) [0..<k] vs ! j =
           (if j mod 3 < k then flattenChannel h len (j mod 3) vs ! j else vs ! j)"
  using assms(1)
proof (induction k arbitrary: j)
  case 0
  show ?case by simp
next
  case (Suc k)
  let ?w = "fold (flattenChannel h len) [0..<k] vs"
  have step: "fold (flattenChannel h len) [0..<Suc k] vs = flattenChannel h len k ?w" by simp
  from Suc.prems have k3: "k < 3" "k \<le> 3" by simp_all
  note IH = Suc.IH[OF k3(2)]
  show ?case
  proof (cases "j mod 3 = k")
    case True
    have ag: "\<forall>i. i mod 3 = k \<longrightarrow> ?w ! i = vs ! i"
      by (simp add: IH)
    have "flattenChannel h len k ?w ! j = flattenChannel h len k vs ! j"
      by (rule flattenChannel_agree[OF _ _ k3(1) assms(3) ag True])
         (simp_all add: assms(2))
    with True show ?thesis by (simp only: step) simp
  next
    case False
    then have "flattenChannel h len k ?w ! j = ?w ! j"
      using flattenChannel_other[OF k3(1)] by simp
    moreover from False have "j mod 3 < Suc k \<longleftrightarrow> j mod 3 < k" by auto
    ultimately show ?thesis by (simp only: step IH)
  qed
qed

lemma fold_prepareChannel_fst:
  assumes "k \<le> 3" "length props = 3" "length vs = len * 3" "h \<longrightarrow> len = 65536"
  shows "length (fst (fold (prepareChannel h len) [0..<k] (props, vs))) = 3
         \<and> (\<forall>c<k. isIncreasing (fst (fold (prepareChannel h len) [0..<k] (props, vs)) ! c)
                     = channelDirection h len c vs)"
  using assms(1)
proof (induction k)
  case 0
  show ?case by (simp add: assms(2))
next
  case (Suc k)
  let ?S = "fold (prepareChannel h len) [0..<k] (props, vs)"
  let ?w = "fold (flattenChannel h len) [0..<k] vs"
  from Suc.prems have k3: "k < 3" "k \<le> 3" by simp_all
  from Suc.IH[OF k3(2)] have len: "length (fst ?S) = 3"
    and old: "\<And>c. c < k \<Longrightarrow> isIncreasing (fst ?S ! c) = channelDirection h len c vs"
    by simp_all
  have S: "?S = (fst ?S, ?w)"
    using fold_prepareChannel_snd[of h len "[0..<k]" props vs] by (metis prod.collapse)
  have step: "fold (prepareChannel h len) [0..<Suc k] (props, vs)
                = prepareChannel h len k (fst ?S, ?w)"
    using S by simp
  have agk: "\<forall>j. j mod 3 = k \<longrightarrow> ?w ! j = vs ! j"
    by (simp add: fold_flattenChannel_value[OF k3(2) assms(3,4)])
  have dk: "channelDirection h len k ?w = channelDirection h len k vs"
    by (rule channelDirection_agree[OF k3(1)]) (use agk in simp)
  show ?case
  proof (intro conjI allI impI)
    show "length (fst (fold (prepareChannel h len) [0..<Suc k] (props, vs))) = 3"
      by (simp only: step prepareChannel_fst(1) len)
  next
    fix c assume "c < Suc k"
    show "isIncreasing (fst (fold (prepareChannel h len) [0..<Suc k] (props, vs)) ! c)
            = channelDirection h len c vs"
    proof (cases "c = k")
      case True
      with k3(1) len show ?thesis
        by (simp only: step) (simp add: prepareChannel_fst(2) dk)
    next
      case False
      with \<open>c < Suc k\<close> have "c < k" by simp
      with False old show ?thesis
        by (simp only: step) (simp add: prepareChannel_fst(3))
    qed
  qed
qed

lemma prepareArray_value:
  assumes "Array_invariant (m_array lut)"
    and "isInputHalfDomain lut \<longrightarrow> m_length (m_array lut) = 65536"
  shows "m_data (m_array (prepareArray lut)) ! j =
           (if j mod 3 < m_numColorComponents (m_array lut)
            then flattenChannel (isInputHalfDomain lut) (m_length (m_array lut)) (j mod 3)
                   (m_data (m_array lut)) ! j
            else m_data (m_array lut) ! j)"
  using assms
  by (simp add: prepareArray_data Array_invariant_def getMaxColorComponents_def
      fold_flattenChannel_value)

lemma prepareArray_direction:
  assumes "Array_invariant (m_array lut)"
    and "isInputHalfDomain lut \<longrightarrow> m_length (m_array lut) = 65536"
    and "length (m_componentProperties lut) = 3"
    and "c < m_numColorComponents (m_array lut)"
  shows "isIncreasing (m_componentProperties (prepareArray lut) ! c) =
           channelDirection (isInputHalfDomain lut) (m_length (m_array lut)) c
             (m_data (m_array lut))"
proof -
  let ?k = "m_numColorComponents (m_array lut)"
  let ?S = "fold (prepareChannel (isInputHalfDomain lut) (m_length (m_array lut))) [0..<?k]
              (m_componentProperties lut, m_data (m_array lut))"
  from assms(1) have inv: "?k \<le> 3" "length (m_data (m_array lut)) = m_length (m_array lut) * 3"
    by (simp_all add: Array_invariant_def getMaxColorComponents_def)
  from fold_prepareChannel_fst[OF inv(1) assms(3) inv(2) assms(2)] assms(4)
  have l: "length (fst ?S) = 3"
    and d: "isIncreasing (fst ?S ! c) =
              channelDirection (isInputHalfDomain lut) (m_length (m_array lut)) c
                (m_data (m_array lut))"
    by simp_all
  have "m_componentProperties (prepareArray lut) ! c = fst ?S ! c"
    using assms(4) by (auto simp: prepareArray_def Let_def)
  with d show ?thesis by simp
qed

text \<open>
  C3, as amended.  After the preparation of a LUT, let \<open>c\<close> be an active channel whose
  stored values are not NaN on the non-NaN domain rows.  For a standard LUT the stored
  values of \<open>c\<close> are weakly monotonic in the detected direction over all rows.  For a
  half-domain LUT they are weakly monotonic in the detected direction over the finite
  positive rows 0 to 31743 and in the opposite direction over the finite negative rows
  32768 to 64511; nothing is said of the rows of the two infinities.
\<close>

theorem prepareArray_weakly_monotonic:
  assumes "Array_invariant (m_array lut)"
    and "isInputHalfDomain lut \<longrightarrow> m_length (m_array lut) = 65536"
    and "length (m_componentProperties lut) = 3"
    and "c < m_numColorComponents (m_array lut)"
    and "if isInputHalfDomain lut
         then rows_not_nan (m_data (m_array lut)) c 0 31744
              \<and> rows_not_nan (m_data (m_array lut)) c 32768 64512
         else rows_not_nan (m_data (m_array lut)) c 0 (m_length (m_array lut) - 1)"
  shows "if isInputHalfDomain lut
         then weakly_monotonic (isIncreasing (m_componentProperties (prepareArray lut) ! c))
                (m_data (m_array (prepareArray lut))) c 0 31743
              \<and> weakly_monotonic (\<not> isIncreasing (m_componentProperties (prepareArray lut) ! c))
                (m_data (m_array (prepareArray lut))) c 32768 64511
         else weakly_monotonic (isIncreasing (m_componentProperties (prepareArray lut) ! c))
                (m_data (m_array (prepareArray lut))) c 0 (m_length (m_array lut) - 1)"
proof -
  define len where "len = m_length (m_array lut)"
  define d where "d = m_data (m_array lut)"
  from assms(1,4) have inv: "length d = len * 3" "1 \<le> len" "c < 3"
    by (simp_all add: Array_invariant_def getMaxColorComponents_def len_def d_def)
  have m: "(i * 3 + c) mod 3 = c" for i using inv(3) by (simp add: mod_high_rows)
  have val: "m_data (m_array (prepareArray lut)) ! (i * 3 + c) =
               flattenChannel (isInputHalfDomain lut) len c d ! (i * 3 + c)" for i
    using assms(4) inv(3) by (simp add: prepareArray_value[OF assms(1,2)] len_def d_def)
  have dir: "isIncreasing (m_componentProperties (prepareArray lut) ! c) =
               channelDirection (isInputHalfDomain lut) len c d"
    by (simp add: prepareArray_direction[OF assms(1-4)] len_def d_def)
  show ?thesis
  proof (cases "isInputHalfDomain lut")
    case False
    with assms(5) have nn: "\<forall>i<len. \<not> IsNan (d ! (i * 3 + c))"
      using inv(2) by (auto simp: rows_not_nan_def len_def d_def)
    have "weakly_monotonic (channelDirection False len c d)
            (m_data (m_array (prepareArray lut))) c 0 (len - 1)"
      unfolding weakly_monotonic_def
    proof (intro ballI)
      fix i j assume "i \<in> {0..len - 1}" "j \<in> {i..len - 1}"
      then have "i \<le> j" "j < len" using inv(2) by auto
      from flattenChannel_standard_monotone[OF inv(1,3) nn this]
      show "dir_le (channelDirection False len c d)
              (m_data (m_array (prepareArray lut)) ! (i * 3 + c))
              (m_data (m_array (prepareArray lut)) ! (j * 3 + c))"
        using False by (simp add: val)
    qed
    with False show ?thesis by (simp add: dir len_def)
  next
    case True
    with assms(2) inv(1) have l: "length d = 196608" by (simp add: len_def)
    from True assms(5) have nnp: "\<forall>i\<le>31744. \<not> IsNan (d ! (i * 3 + c))"
      and nnn: "\<forall>i. 32768 \<le> i \<and> i \<le> 64512 \<longrightarrow> \<not> IsNan (d ! (i * 3 + c))"
      by (auto simp: rows_not_nan_def d_def)
    from nnp have s: "\<not> IsNan (d ! c)" by (auto dest: spec[of _ 0])
    have pos: "weakly_monotonic (channelDirection True len c d)
            (m_data (m_array (prepareArray lut))) c 0 31743"
      unfolding weakly_monotonic_def
    proof (intro ballI)
      fix i j assume "i \<in> {0..31743::nat}" "j \<in> {i..31743}"
      then have "i \<le> j" "j * 3 + c < 95233" using inv(3) by auto
      from flattenChannel_half_monotone_pos[OF l inv(3) nnp this]
      show "dir_le (channelDirection True len c d)
              (m_data (m_array (prepareArray lut)) ! (i * 3 + c))
              (m_data (m_array (prepareArray lut)) ! (j * 3 + c))"
        using True by (simp add: val)
    qed
    have neg: "weakly_monotonic (\<not> channelDirection True len c d)
            (m_data (m_array (prepareArray lut))) c 32768 64511"
      unfolding weakly_monotonic_def
    proof (intro ballI)
      fix i j assume "i \<in> {32768..64511::nat}" "j \<in> {i..64511}"
      then have "32768 \<le> i" "i \<le> j" "j \<le> 64511" by auto
      from flattenChannel_half_monotone_neg[OF l inv(3) s nnn this]
      show "dir_le (\<not> channelDirection True len c d)
              (m_data (m_array (prepareArray lut)) ! (i * 3 + c))
              (m_data (m_array (prepareArray lut)) ! (j * 3 + c))"
        using True by (simp add: val)
    qed
    from pos neg True show ?thesis by (simp add: dir)
  qed
qed

lemma rows_not_nan_from_set:
  assumes "\<forall>v\<in>set vs. \<not> IsNan v" "hi * 3 + c < length vs"
  shows "rows_not_nan vs c lo hi"
  unfolding rows_not_nan_def
proof
  fix i assume "i \<in> {lo..hi}"
  then have "i * 3 + c \<le> hi * 3 + c" by simp
  with assms(2) have "i * 3 + c < length vs" by simp
  with assms(1) show "\<not> IsNan (vs ! (i * 3 + c))" by simp
qed

lemma qNaN_IsNan [simp]: "IsNan qNaN"
  by (simp add: IsNan_def f_mag_def qNaN_def)

lemma flt_small [simp]:
  "flt_lt f_two f_one = False" "flt_lt f_two f_three" "flt_lt f_zero f_one"
  "flt_lt f_one f_two" "flt_lt f_zero f_three" "flt_lt f_zero f_zero = False"
  "flt_le f_three f_two = False"
  by (simp_all add: flt_lt_def flt_le_def)

lemma lut_rev4_facts:
  "Array_invariant (m_array lut_rev4)" "\<not> isInputHalfDomain lut_rev4"
  "length (m_componentProperties lut_rev4) = 3" "m_numColorComponents (m_array lut_rev4) = 3"
  "m_length (m_array lut_rev4) = 4"
  "rows_not_nan (m_data (m_array lut_rev4)) 0 0 3"
  by (simp_all add: lut_rev4_def lut_of_def Array_invariant_def getMaxColorComponents_def
      isInputHalfDomain_def IsInputHalfDomain_def LUT_STANDARD_def LUT_INPUT_HALF_CODE_def
      rows_not_nan_from_set)

lemma lut_nan4_facts:
  "Array_invariant (m_array lut_nan4)" "\<not> isInputHalfDomain lut_nan4"
  "length (m_componentProperties lut_nan4) = 3" "m_numColorComponents (m_array lut_nan4) = 3"
  "m_length (m_array lut_nan4) = 4"
  by (simp_all add: lut_nan4_def lut_of_def Array_invariant_def getMaxColorComponents_def
      isInputHalfDomain_def IsInputHalfDomain_def LUT_STANDARD_def LUT_INPUT_HALF_CODE_def)

lemma flattenChannel_lut_nan4:
  "flattenChannel False 4 0 (m_data (m_array lut_nan4)) = m_data (m_array lut_nan4)"
  by (simp add: lut_nan4_def lut_of_def flattenChannel_def flattenReversals_standard
      channelDirection_def flatten_lt_step flatten_lt_stop clampStep_def flt_gt_def
      flt_lt_def)

lemma flattenChannel_lut_rev4:
  "flattenChannel False 4 0 (m_data (m_array lut_rev4)) =
     [f_zero, f_zero, f_zero, f_two, f_two, f_two, f_two, f_one, f_one,
      f_three, f_three, f_three]"
  by (simp add: lut_rev4_def lut_of_def flattenChannel_def flattenReversals_standard
      channelDirection_def flatten_lt_step flatten_lt_stop clampStep_def flt_gt_def
      flt_lt_def)

text \<open>The idempotence of \<^verbatim>\<open>finalize\<close> on the inverse LUT with a reversal.\<close>

lemma finalize_lut_rev4_valid: "validate env0 (finalize_prepare lut_rev4) = Inr ()"
proof -
  have "length (m_data (m_array (finalize_prepare lut_rev4))) = 12"
    by (simp add: finalize_prepare_def Let_def initializeFromForward_def prepareArray_data
        lut_rev4_def lut_of_def)
  then show ?thesis
    by (simp add: validate_def OpData_validate_def env0_fields lut_rev4_facts
        lut_rev4_def lut_of_def isInputHalfDomain_def IsInputHalfDomain_def LUT_STANDARD_def
        LUT_INPUT_HALF_CODE_def)
qed

theorem finalize_idempotent_witness:
  "\<exists>l' l''. finalize env0 lut_rev4 = Inr l' \<and> Array_invariant (m_array lut_rev4)
     \<and> finalize env0 l' = Inr l'' \<and> m_cacheID l'' = m_cacheID l'"
proof -
  obtain l' where l': "finalize env0 lut_rev4 = Inr l'"
    unfolding finalize_Inr_iff using finalize_lut_rev4_valid by simp
  from finalize_idempotent[OF l' lut_rev4_facts(1)] l' lut_rev4_facts(1)
  show ?thesis by blast
qed

text \<open>
  C3, as stated, fails on \<open>lut_nan4\<close>: the detected direction of channel 0 is
  decreasing (\<open>2.0 < 1.0\<close> is false), the NaN of row 1 is kept and becomes the previous
  value, every comparison with it is false, so the \<open>3.0\<close> of row 2 stays; after the
  preparation row 0 holds \<open>2.0\<close> and row 2 holds \<open>3.0\<close>, an increase in a channel found
  decreasing.
\<close>

theorem prepareArray_nan_not_monotonic:
  "isIncreasing (m_componentProperties (prepareArray lut_nan4) ! 0) = False
   \<and> m_data (m_array (prepareArray lut_nan4)) ! (0 * 3 + 0) = f_two
   \<and> m_data (m_array (prepareArray lut_nan4)) ! (2 * 3 + 0) = f_three
   \<and> flt_lt f_two f_three
   \<and> \<not> weakly_monotonic (isIncreasing (m_componentProperties (prepareArray lut_nan4) ! 0))
         (m_data (m_array (prepareArray lut_nan4))) 0 0 3"
proof -
  have hd: "isInputHalfDomain lut_nan4 \<longrightarrow> m_length (m_array lut_nan4) = 65536"
    by (simp add: lut_nan4_facts)
  have dir: "isIncreasing (m_componentProperties (prepareArray lut_nan4) ! 0) = False"
    by (simp add: prepareArray_direction[OF lut_nan4_facts(1) hd lut_nan4_facts(3)]
        lut_nan4_facts channelDirection_def)
       (simp add: lut_nan4_def lut_of_def)
  have v0: "m_data (m_array (prepareArray lut_nan4)) ! (0 * 3 + 0) = f_two"
    and v2: "m_data (m_array (prepareArray lut_nan4)) ! (2 * 3 + 0) = f_three"
    by (simp_all add: prepareArray_value[OF lut_nan4_facts(1) hd] lut_nan4_facts
        flattenChannel_lut_nan4)
       (simp_all add: lut_nan4_def lut_of_def)
  have "\<not> weakly_monotonic False (m_data (m_array (prepareArray lut_nan4))) 0 0 3"
  proof
    assume "weakly_monotonic False (m_data (m_array (prepareArray lut_nan4))) 0 0 3"
    then have "dir_le False (m_data (m_array (prepareArray lut_nan4)) ! (0 * 3 + 0))
                 (m_data (m_array (prepareArray lut_nan4)) ! (2 * 3 + 0))"
      unfolding weakly_monotonic_def
      by (elim ballE[where x = "0::nat"] ballE[where x = "2::nat"]) simp_all
    then show False by (simp only: v0 v2) (simp add: dir_le_def)
  qed
  with dir v0 v2 show ?thesis by simp
qed

theorem prepareArray_weakly_monotonic_witness:
  "Array_invariant (m_array lut_rev4) \<and> rows_not_nan (m_data (m_array lut_rev4)) 0 0 3
   \<and> m_data (m_array (prepareArray lut_rev4)) ! (2 * 3 + 0) = f_two
   \<and> weakly_monotonic (isIncreasing (m_componentProperties (prepareArray lut_rev4) ! 0))
        (m_data (m_array (prepareArray lut_rev4))) 0 0 3"
proof -
  have hd: "isInputHalfDomain lut_rev4 \<longrightarrow> m_length (m_array lut_rev4) = 65536"
    by (simp add: lut_rev4_facts)
  have v2: "m_data (m_array (prepareArray lut_rev4)) ! (2 * 3 + 0) = f_two"
    by (simp add: prepareArray_value[OF lut_rev4_facts(1) hd] lut_rev4_facts
        flattenChannel_lut_rev4)
  from prepareArray_weakly_monotonic[OF lut_rev4_facts(1) hd lut_rev4_facts(3), of 0]
    lut_rev4_facts v2
  show ?thesis by simp
qed

section \<open>The rows of the infinities\<close>

lemma all_set_update:
  "\<forall>v\<in>set xs. P v \<Longrightarrow> P x \<Longrightarrow> \<forall>v\<in>set (xs[i := x]). P v"
  using set_update_subset_insert[of xs i x] by auto

lemma lut_inf_data:
  "m_data (m_array lut_inf) ! 0 = f_one" "m_data (m_array lut_inf) ! 1 = f_one"
  "m_data (m_array lut_inf) ! 46080 = f_two" "m_data (m_array lut_inf) ! 46081 = f_two"
  "m_data (m_array lut_inf) ! 95232 = f_zero" "m_data (m_array lut_inf) ! 95233 = f_zero"
  "length (m_data (m_array lut_inf)) = 196608"
  "m_data (m_array lut_inf) ! Suc 0 = f_one"
  by (simp_all add: lut_inf_def lut_of_def)

lemma lut_inf_not_nan: "\<forall>v\<in>set (m_data (m_array lut_inf)). \<not> IsNan v"
  unfolding lut_inf_def lut_of_def
  by (simp, intro all_set_update) simp_all

lemma lut_inf_facts:
  "Array_invariant (m_array lut_inf)" "isInputHalfDomain lut_inf"
  "length (m_componentProperties lut_inf) = 3" "m_numColorComponents (m_array lut_inf) = 3"
  "m_length (m_array lut_inf) = 65536"
  by (simp_all add: lut_inf_def lut_of_def Array_invariant_def getMaxColorComponents_def
      isInputHalfDomain_def IsInputHalfDomain_def LUT_INPUT_HALF_CODE_def)

text \<open>
  C1.  The claim has the positive walk of every active channel clamp the rows up to the
  row 31744 of \<open>+infinity\<close> inclusive.  On \<open>lut_inf\<close> the channels 0 and 1 hold the same
  values and are both found increasing; the row of \<open>+infinity\<close>, which holds \<open>0.0\<close> in
  both, is clamped in channel 0 (it ends at least \<open>1.0\<close>) and is left at \<open>0.0\<close> in
  channel 1, below the \<open>1.0\<close> or more of row 31743: the walk's last index
  \<^verbatim>\<open>31744u * maxChannels\<close> lacks the \<^verbatim>\<open>+ c\<close> of its first index.
\<close>

theorem prepareArray_infinity_row_not_flattened:
  "isIncreasing (m_componentProperties (prepareArray lut_inf) ! 0)
   \<and> isIncreasing (m_componentProperties (prepareArray lut_inf) ! 1)
   \<and> m_data (m_array lut_inf) ! (31744 * 3 + 0) = f_zero
   \<and> m_data (m_array lut_inf) ! (31744 * 3 + 1) = f_zero
   \<and> flt_le f_one (m_data (m_array (prepareArray lut_inf)) ! (31744 * 3 + 0))
   \<and> flt_le f_one (m_data (m_array (prepareArray lut_inf)) ! (31743 * 3 + 1))
   \<and> m_data (m_array (prepareArray lut_inf)) ! (31744 * 3 + 1) = f_zero
   \<and> flt_lt (m_data (m_array (prepareArray lut_inf)) ! (31744 * 3 + 1))
             (m_data (m_array (prepareArray lut_inf)) ! (31743 * 3 + 1))"
proof -
  let ?d = "m_data (m_array lut_inf)"
  let ?r = "m_data (m_array (prepareArray lut_inf))"
  have hd: "isInputHalfDomain lut_inf \<longrightarrow> m_length (m_array lut_inf) = 65536"
    by (simp add: lut_inf_facts)
  note val = prepareArray_value[OF lut_inf_facts(1) hd]
  note dir = prepareArray_direction[OF lut_inf_facts(1) hd lut_inf_facts(3)]
  have d0: "isIncreasing (m_componentProperties (prepareArray lut_inf) ! 0)"
    and d1: "isIncreasing (m_componentProperties (prepareArray lut_inf) ! 1)"
    by (simp_all add: dir lut_inf_facts channelDirection_def lut_inf_data)
  have c0: "channelDirection True 65536 0 ?d" and c1: "channelDirection True 65536 1 ?d"
    by (simp_all add: channelDirection_def lut_inf_data)
  have nn: "\<forall>i\<le>31744. \<not> IsNan (?d ! (i * 3 + c))" if "c < 3" for c
    using lut_inf_data(7) lut_inf_not_nan that by simp
  have r0: "?r ! 95232 = flattenChannel True 65536 0 ?d ! 95232"
    and r1: "?r ! 95230 = flattenChannel True 65536 1 ?d ! 95230"
    and r2: "?r ! 95233 = flattenChannel True 65536 1 ?d ! 95233"
    by (simp_all add: val lut_inf_facts)
  have "dir_le (channelDirection True 65536 0 ?d)
          (flattenChannel True 65536 0 ?d ! (0 * 3 + 0))
          (flattenChannel True 65536 0 ?d ! (31744 * 3 + 0))"
    by (rule flattenChannel_half_monotone_pos[OF lut_inf_data(7) _ nn]) simp_all
  then have a: "flt_le f_one (?r ! (31744 * 3 + 0))"
    using c0 flattenChannel_seed[of True 65536 0 ?d]
    by (simp add: r0 dir_le_def lut_inf_data)
  have "dir_le (channelDirection True 65536 1 ?d)
          (flattenChannel True 65536 1 ?d ! (0 * 3 + 1))
          (flattenChannel True 65536 1 ?d ! (31743 * 3 + 1))"
    by (rule flattenChannel_half_monotone_pos[OF lut_inf_data(7) _ nn]) simp_all
  then have b: "flt_le f_one (?r ! (31743 * 3 + 1))"
    using c1 flattenChannel_seed[of True 65536 1 ?d]
    by (simp add: r1 dir_le_def lut_inf_data)
  have c: "?r ! (31744 * 3 + 1) = f_zero"
    using flattenChannel_infinity_rows[of 1 95233 65536 ?d]
    by (simp add: r2 lut_inf_data)
  from b have "flt_lt f_zero (?r ! (31743 * 3 + 1))"
    by (simp add: flt_le_def flt_lt_def)
  with a b c d0 d1 show ?thesis by (simp add: lut_inf_data)
qed

end
